theory Spec2Isabelle
  imports Complex_Main "HOL-Library.Log_Nat" "HOL-Library.Multiset"
begin

section \<open>Values shared by the sources\<close>

text \<open>
  The C++ \<open>double\<close> is read as \<open>real\<close> and \<open>int\<close> as \<open>int\<close>: containers of the
  program are far below the range of \<open>int\<close>, so no wrap-around is written. A pointer
  to a weight vector is an address of the store below; a null pointer is \<open>None\<close>.
  A \<open>Feature*\<close> row is the list of its \<open>(index, value)\<close> pairs before the \<open>-1\<close>
  sentinel.
\<close>

type_synonym Weight = real
type_synonym Feature = "int \<times> real"

datatype LossType = logistic | squaredHinge | pwLogistic
datatype OptimizerType = liblinear | sgd | adagrad
datatype RepresentationType = dense | map_rep | sparse

datatype error =
    InvalidArgument string   \<comment> \<open>\<open>throw std::invalid_argument(msg)\<close>\<close>
  | AssertionFailed          \<comment> \<open>a failed \<open>assert\<close>\<close>
  | NullPointer              \<comment> \<open>dereference of \<open>nullptr\<close>\<close>
  | DanglingPointer          \<comment> \<open>use of a deleted object\<close>
  | OutOfRange               \<comment> \<open>unchecked index outside a \<open>std::vector\<close>\<close>
  | StreamEnd                \<comment> \<open>read past the end of the stream, or of the wrong kind\<close>
  | BadAlloc                 \<comment> \<open>a loop that allocates until the memory is exhausted\<close>

subsection \<open>Weight vectors\<close>

text \<open>
  Modelled from the spec: the classes \<open>AbstractVector\<close>, \<open>Vector\<close>, \<open>MapVector\<close> and
  \<open>SparseVector\<close> (vector.h) are not among the sources. A vector is a mapping from
  feature index to weight in one of three representations; \<open>at\<close> gives 0 for an
  absent index, \<open>dot\<close> sums \<open>at(index) * value\<close> over a feature row, the converting
  constructors keep the logical mapping.
\<close>

datatype AbstractVector =
    Vector "Weight list"
  | MapVector nat "(nat \<times> Weight) list"
  | SparseVector nat "(nat \<times> Weight) list"

fun vsize :: "AbstractVector \<Rightarrow> nat" where
  "vsize (Vector xs) = length xs"
| "vsize (MapVector s m) = s"
| "vsize (SparseVector s m) = s"

fun lookup0 :: "(nat \<times> Weight) list \<Rightarrow> nat \<Rightarrow> Weight" where
  "lookup0 [] i = 0"
| "lookup0 ((j, w) # m) i = (if i = j then w else lookup0 m i)"

fun at_vec :: "AbstractVector \<Rightarrow> nat \<Rightarrow> Weight" where
  "at_vec (Vector xs) i = (if i < length xs then xs ! i else 0)"
| "at_vec (MapVector s m) i = lookup0 m i"
| "at_vec (SparseVector s m) i = lookup0 m i"

definition dot :: "AbstractVector \<Rightarrow> Feature list \<Rightarrow> real" where
  "dot v f = (\<Sum>(i, x) \<leftarrow> f. at_vec v (nat i) * x)"

definition entries :: "AbstractVector \<Rightarrow> (nat \<times> Weight) list" where
  "entries v = filter (\<lambda>(i, w). w \<noteq> 0) (map (\<lambda>i. (i, at_vec v i)) [0..<vsize v])"

definition toDense :: "AbstractVector \<Rightarrow> AbstractVector" where
  "toDense v = Vector (map (at_vec v) [0..<vsize v])"

definition toMap :: "AbstractVector \<Rightarrow> AbstractVector" where
  "toMap v = MapVector (vsize v) (entries v)"

definition toSparse :: "AbstractVector \<Rightarrow> AbstractVector" where
  "toSparse v = SparseVector (vsize v) (entries v)"

fun isDense :: "AbstractVector \<Rightarrow> bool" where
  "isDense (Vector xs) = True" | "isDense _ = False"

fun isMap :: "AbstractVector \<Rightarrow> bool" where
  "isMap (MapVector s m) = True" | "isMap _ = False"

fun isSparse :: "AbstractVector \<Rightarrow> bool" where
  "isSparse (SparseVector s m) = True" | "isSparse _ = False"

subsection \<open>The store of weight vectors\<close>

text \<open>
  \<open>new\<close> appends a cell and returns its address, \<open>delete\<close> empties the cell; a
  pointer whose cell is empty is dangling.
\<close>

type_synonym addr = nat
type_synonym heap = "AbstractVector option list"

definition new :: "heap \<Rightarrow> AbstractVector \<Rightarrow> heap \<times> addr" where
  "new h v = (h @ [Some v], length h)"

definition delete :: "heap \<Rightarrow> addr \<Rightarrow> heap" where
  "delete h a = h[a := None]"

definition deref :: "heap \<Rightarrow> addr \<Rightarrow> AbstractVector option" where
  "deref h a = (if a < length h then h ! a else None)"

section \<open>Base (base.cpp)\<close>

datatype SolverType =
    L2R_LR | L2R_L2LOSS_SVC_DUAL | L2R_L2LOSS_SVC | L2R_L1LOSS_SVC_DUAL | L1R_L2LOSS_SVC
  | L1R_LR | L2R_LR_DUAL

record Args =
  tmax :: int
  lossType :: LossType
  optimizerType :: OptimizerType
  solverType :: SolverType
  epochs :: int
  inbalanceLabelsWeighting :: bool
  weightsThreshold :: real
  cost :: real
  autoCLog :: bool
  autoCLin :: bool

record ProblemData =
  binLabels :: "real list"
  binFeatures :: "Feature list list"
  instancesWeights :: "real list"
  n_features :: int
  r_count :: int
  invPs :: real
  labelsCount :: int
  labels_pd :: "int list"
  labelsWeights :: "real list"

record Base =
  lossType :: LossType
  classCount :: int
  firstClass :: int
  firstClassCount :: int
  t_steps :: int
  W :: "addr option"
  G :: "addr option"

text \<open>
  What a stream holds: one value per \<open>saveVar\<close>. Reading a value of another kind
  than the one written, or from an empty stream, is the error \<open>StreamEnd\<close>.
\<close>

datatype var = IntVar int | SizeVar nat | BoolVar bool | DoubleVar real | LossVar LossType

text \<open>
  The collaborators of \<open>Base\<close> that are not among the sources, taken as parameters:
  the gradients and update rules of online_optimization.h, the LibLinear solver
  (its result read as \<open>(label[0], nr_class, w)\<close>), and from vector.h the pruning, the
  memory estimates and the serialisation of a weight vector.
\<close>

record ext =
  logisticGrad :: "real \<Rightarrow> real \<Rightarrow> real \<Rightarrow> real"
  squaredHingeGrad :: "real \<Rightarrow> real \<Rightarrow> real \<Rightarrow> real"
  pwLogisticGrad :: "real \<Rightarrow> real \<Rightarrow> real \<Rightarrow> real"
  updateSGD :: "AbstractVector \<Rightarrow> AbstractVector option \<Rightarrow> Feature list \<Rightarrow> real \<Rightarrow> int \<Rightarrow> Args
                 \<Rightarrow> AbstractVector \<times> AbstractVector option"
  updateAdaGrad :: "AbstractVector \<Rightarrow> AbstractVector option \<Rightarrow> Feature list \<Rightarrow> real \<Rightarrow> int \<Rightarrow> Args
                 \<Rightarrow> AbstractVector \<times> AbstractVector option"
  train_liblinear :: "ProblemData \<Rightarrow> Args \<Rightarrow> real \<Rightarrow> int \<times> int \<times> real list"
  prune :: "AbstractVector \<Rightarrow> real \<Rightarrow> AbstractVector"
  insertD :: "AbstractVector \<Rightarrow> nat \<Rightarrow> Weight \<Rightarrow> AbstractVector"
  sparseMem :: "AbstractVector \<Rightarrow> nat"
  denseMem :: "AbstractVector \<Rightarrow> nat"
  nonZero :: "AbstractVector \<Rightarrow> nat"
  denseEstimateMem :: "nat \<Rightarrow> nat \<Rightarrow> nat"
  mapEstimateMem :: "nat \<Rightarrow> nat \<Rightarrow> nat"
  vsave :: "AbstractVector \<Rightarrow> var list"
  vload :: "AbstractVector \<Rightarrow> var list \<Rightarrow> (AbstractVector \<times> var list) option"
  vskipLoad :: "AbstractVector \<Rightarrow> var list \<Rightarrow> var list option"

text \<open>
  A call ends normally with the new state (\<open>Inr\<close>), or with an error and the state
  it leaves behind (\<open>Inl\<close>): what was assigned before a \<open>throw\<close> stays assigned.
\<close>

type_synonym 's result = "error \<times> 's + 's"

text \<open>\<open>Base::Base()\<close>.\<close>

definition Base_init :: Base where
  "Base_init = \<lparr>lossType = logistic, classCount = 0, firstClass = 0, firstClassCount = 0,
     t_steps = 0, W = None, G = None\<rparr>"

text \<open>\<open>static_cast<int>\<close> of a double truncates toward zero.\<close>

definition trunc :: "real \<Rightarrow> int" where
  "trunc x = (if 0 \<le> x then \<lfloor>x\<rfloor> else \<lceil>x\<rceil>)"

text \<open>
  \<open>Base::predictValue\<close>: with fewer than two classes the constant
  \<open>(1 - 2 * firstClass) * -10\<close>, otherwise \<open>W->dot(features)\<close>, negated when
  \<open>firstClass == 0\<close>.
\<close>

definition predictValue :: "heap \<Rightarrow> Base \<Rightarrow> Feature list \<Rightarrow> error + real" where
  "predictValue h b features =
     (if classCount b < 2 then Inr (real_of_int ((1 - 2 * firstClass b) * (- 10)))
      else case W b of
             None \<Rightarrow> Inl NullPointer
           | Some a \<Rightarrow>
              (case deref h a of
                 None \<Rightarrow> Inl DanglingPointer
               | Some v \<Rightarrow>
                   (let val = dot v features
                    in Inr (if firstClass b = 0 then val * (- 1) else val))))"

text \<open>
  \<open>Base::trainLiblinear\<close>: the cost is scaled, the solver runs, and its weights are
  copied into a dense vector of length \<open>n + 1\<close>, shifted by one.
\<close>

definition trainLiblinear :: "ext \<Rightarrow> ProblemData \<Rightarrow> Args \<Rightarrow> heap \<times> Base \<Rightarrow> (heap \<times> Base) result" where
  "trainLiblinear X pd args s =
     (let (h, b) = s;
          m = real (length (binFeatures pd));
          c0 = cost args;
          c1 = (if autoCLog args then c0 * (1 + ln (real_of_int (r_count pd) / m)) else c0);
          c2 = (if autoCLin args then c1 * (real_of_int (r_count pd) / m) else c1);
          (label0, nr_class, w) = train_liblinear X pd args c2
      in if \<not> nr_class \<le> 2 then Inl (AssertionFailed, s)
         else if int (length w) \<noteq> n_features pd then Inl (AssertionFailed, s)
         else
           (let (h', a) = new h (Vector (0 # w));
                b' = b\<lparr>firstClass := label0, classCount := nr_class, W := Some a\<rparr>
            in Inr (h',
                 if solverType args = L2R_L2LOSS_SVC_DUAL \<or> solverType args = L2R_L2LOSS_SVC \<or>
                    solverType args = L2R_L1LOSS_SVC_DUAL \<or> solverType args = L1R_L2LOSS_SVC
                 then b'\<lparr>lossType := squaredHinge\<rparr> else b')))"

text \<open>
  The inner loop of \<open>Base::trainOnline\<close> over the rows, on the state
  \<open>(t, firstClassCount, _W, _G)\<close>; \<open>firstClass\<close> is 1 there. The \<open>break\<close> leaves the
  loop over the rows only.
\<close>

fun trainOnline_rows ::
  "(real \<Rightarrow> real \<Rightarrow> real \<Rightarrow> real) \<Rightarrow>
   (AbstractVector \<Rightarrow> AbstractVector option \<Rightarrow> Feature list \<Rightarrow> real \<Rightarrow> int \<Rightarrow> Args
      \<Rightarrow> AbstractVector \<times> AbstractVector option) \<Rightarrow>
   Args \<Rightarrow> real \<Rightarrow> (real \<times> Feature list \<times> real) list \<Rightarrow>
   int \<times> int \<times> AbstractVector \<times> AbstractVector option \<Rightarrow>
   int \<times> int \<times> AbstractVector \<times> AbstractVector option" where
  "trainOnline_rows gradFunc updateFunc args ips [] st = st"
| "trainOnline_rows gradFunc updateFunc args ips ((label, features, iw) # rows) (t, fcc, w, g) =
     (if tmax args \<noteq> - 1 \<and> tmax args < t then (t, fcc, w, g)
      else
        (let t' = t + 1;
             fcc' = (if label = 1 then fcc + 1 else fcc);
             pred = dot w features;
             grad = gradFunc label pred ips * iw;
             (w', g') = updateFunc w g features grad t' args
         in trainOnline_rows gradFunc updateFunc args ips rows (t', fcc', w', g')))"

definition free :: "heap \<Rightarrow> addr option \<Rightarrow> heap" where
  "free h p = (case p of None \<Rightarrow> h | Some a \<Rightarrow> delete h a)"

text \<open>
  \<open>Base::trainOnline\<close>. The two local vectors \<open>_W\<close> and \<open>_G\<close> enter the store when
  they are assigned to the fields, after the loops.
\<close>

definition trainOnline :: "ext \<Rightarrow> ProblemData \<Rightarrow> Args \<Rightarrow> heap \<times> Base \<Rightarrow> (heap \<times> Base) result" where
  "trainOnline X pd args s =
     (let (h, b) = s;
          h1 = free (free h (W b)) (G b);
          b1 = b\<lparr>classCount := 2, firstClass := 1, t_steps := 0, lossType := Args.lossType args\<rparr>;
          w0 = Vector (replicate (nat (n_features pd)) 0);
          gradFunc = (case Args.lossType args of
                        logistic \<Rightarrow> logisticGrad X
                      | squaredHinge \<Rightarrow> squaredHingeGrad X
                      | pwLogistic \<Rightarrow> pwLogisticGrad X)
      in case optimizerType args of
           liblinear \<Rightarrow> Inl (InvalidArgument ''Unknown online update function type'', (h1, b1))
         | opt \<Rightarrow>
            (let updateFunc = (if opt = sgd then updateSGD X else updateAdaGrad X);
                 g0 = (if opt = adagrad then Some w0 else None);
                 rows = zip (binLabels pd) (zip (binFeatures pd) (instancesWeights pd));
                 (t', fcc', w', g') =
                    ((trainOnline_rows gradFunc updateFunc args (invPs pd) rows) ^^ nat (epochs args))
                       (0, firstClassCount b1, w0, g0);
                 (h2, aw) = new h1 w';
                 (h3, ag) = (case g' of None \<Rightarrow> (h2, None)
                             | Some gv \<Rightarrow> (let (h', a) = new h2 gv in (h', Some a)))
             in Inr (h3, b1\<lparr>t_steps := t', firstClassCount := fcc', W := Some aw, G := ag\<rparr>)))"

text \<open>\<open>Base::pruneWeights\<close> keeps the weight of feature 1, the bias.\<close>

definition pruneWeights :: "ext \<Rightarrow> real \<Rightarrow> heap \<times> Base \<Rightarrow> (heap \<times> Base) result" where
  "pruneWeights X threshold s =
     (let (h, b) = s
      in case W b of
           None \<Rightarrow> Inl (NullPointer, s)
         | Some a \<Rightarrow>
            (case deref h a of
               None \<Rightarrow> Inl (DanglingPointer, s)
             | Some v \<Rightarrow>
                (let bias = at_vec v 1;
                     v' = insertD X (prune X v threshold) 1 bias
                 in Inr (h[a := Some v'], b))))"

text \<open>After training, \<open>W\<close> becomes sparse when that is the smaller form.\<close>

definition sparsify :: "ext \<Rightarrow> heap \<times> Base \<Rightarrow> (heap \<times> Base) result" where
  "sparsify X s =
     (let (h, b) = s
      in case W b of
           None \<Rightarrow> Inl (NullPointer, s)
         | Some a \<Rightarrow>
            (case deref h a of
               None \<Rightarrow> Inl (DanglingPointer, s)
             | Some v \<Rightarrow>
                (if sparseMem X v < denseMem X v
                 then (let (h', a') = new h (toSparse v) in Inr (delete h' a, b\<lparr>W := Some a'\<rparr>))
                 else Inr s)))"

text \<open>The class weights of \<open>Base::train\<close> for unbalanced data.\<close>

definition weighting :: "ProblemData \<Rightarrow> int \<Rightarrow> ProblemData" where
  "weighting pd positiveLabels =
     (let negativeLabels = int (length (binLabels pd)) - positiveLabels
      in pd\<lparr>labelsCount := 2, labels_pd := [0, 1],
            labelsWeights :=
              (if negativeLabels > positiveLabels
               then [1, 1 + ln (real_of_int negativeLabels / real_of_int positiveLabels)]
               else [1 + ln (real_of_int positiveLabels / real_of_int negativeLabels), 1])\<rparr>)"

text \<open>
  \<open>Base::train\<close>. The two degenerate cases return first: an empty label list, and a
  label list in which the count of \<open>1.0\<close> is zero or the whole length. The two
  \<open>assert\<close>s stand between them.
\<close>

definition train :: "ext \<Rightarrow> ProblemData \<Rightarrow> Args \<Rightarrow> heap \<times> Base \<Rightarrow> (heap \<times> Base) result" where
  "train X pd args s =
     (let (h, b) = s
      in if binLabels pd = [] then Inr (h, b\<lparr>firstClass := 0, classCount := 0\<rparr>)
         else if length (binLabels pd) \<noteq> length (binFeatures pd) then Inl (AssertionFailed, s)
         else if \<not> length (instancesWeights pd) \<ge> length (binLabels pd) then Inl (AssertionFailed, s)
         else
           (let positiveLabels = int (count_list (binLabels pd) 1)
            in if positiveLabels = 0 \<or> positiveLabels = int (length (binLabels pd))
               then Inr (h, b\<lparr>firstClass := trunc (binLabels pd ! 0), classCount := 1\<rparr>)
               else
                 (let pd' = (if inbalanceLabelsWeighting args then weighting pd positiveLabels else pd)
                  in case (if optimizerType args = liblinear then trainLiblinear X pd' args s
                           else trainOnline X pd' args s) of
                       Inl e \<Rightarrow> Inl e
                     | Inr s1 \<Rightarrow>
                        (case pruneWeights X (weightsThreshold args) s1 of
                           Inl e \<Rightarrow> Inl e
                         | Inr s2 \<Rightarrow> sparsify X s2))))"

text \<open>
  \<open>Base::predictProbability\<close>: the squashed value, by \<open>exp(-max(0, 1 - val)^2)\<close> for
  the squared hinge loss and by the sigmoid otherwise.
\<close>

definition predictProbability :: "heap \<Rightarrow> Base \<Rightarrow> Feature list \<Rightarrow> error + real" where
  "predictProbability h b features =
     (case predictValue h b features of
        Inl e \<Rightarrow> Inl e
      | Inr val \<Rightarrow>
          Inr (if lossType b = squaredHinge then exp (- ((max 0 (1 - val)) ^ 2))
               else 1 / (1 + exp (- val))))"

text \<open>
  What a pointer passed to an update rule refers to: \<open>*W\<close> needs an object, \<open>*G\<close> is
  bound as a reference also when \<open>G\<close> is null (the SGD rule does not read it).
\<close>

definition pointee :: "heap \<Rightarrow> addr option \<Rightarrow> error + AbstractVector option" where
  "pointee h p =
     (case p of
        None \<Rightarrow> Inr None
      | Some a \<Rightarrow> (case deref h a of None \<Rightarrow> Inl DanglingPointer | Some v \<Rightarrow> Inr (Some v)))"

definition store :: "heap \<Rightarrow> addr option \<Rightarrow> AbstractVector option \<Rightarrow> heap" where
  "store h p v = (case p of None \<Rightarrow> h | Some a \<Rightarrow> h[a := v])"

text \<open>
  \<open>Base::unsafeUpdate\<close>: nothing happens once \<open>t\<close> is beyond \<open>tmax\<close>; otherwise the
  step is counted (\<open>count_step\<close>), the gradient is the logistic one for the logistic loss and the
  squared hinge one for every other loss, and the optimizer's rule is applied to
  \<open>*W\<close> and \<open>*G\<close>.
\<close>

definition count_step :: "real \<Rightarrow> Base \<Rightarrow> Base" where
  "count_step label b =
     (let b1 = b\<lparr>t_steps := t_steps b + 1\<rparr>
      in if label = real_of_int (firstClass b1)
         then b1\<lparr>firstClassCount := firstClassCount b1 + 1\<rparr> else b1)"

definition unsafeUpdate ::
  "ext \<Rightarrow> real \<Rightarrow> Feature list \<Rightarrow> Args \<Rightarrow> heap \<times> Base \<Rightarrow> (heap \<times> Base) result" where
  "unsafeUpdate X label features args s =
     (let (h, b) = s
      in if tmax args \<noteq> - 1 \<and> tmax args < t_steps b then Inr s
         else
           (let b2 = count_step label b
            in case predictValue h b2 features of
                 Inl e \<Rightarrow> Inl (e, (h, b2))
               | Inr pred \<Rightarrow>
                  (let grad = (if Args.lossType args = logistic then logisticGrad X label pred 0
                               else squaredHingeGrad X label pred 0)
                   in case optimizerType args of
                        liblinear \<Rightarrow> Inl (InvalidArgument ''Unknown optimizer type'', (h, b2))
                      | opt \<Rightarrow>
                         (case (pointee h (W b2), pointee h (G b2)) of
                            (Inr (Some w), Inr g) \<Rightarrow>
                              (let (w', g') = (if opt = sgd then updateSGD X else updateAdaGrad X)
                                                 w g features grad (t_steps b2) args
                               in Inr (store (store h (W b2) (Some w')) (G b2) g', b2))
                          | (Inr None, _) \<Rightarrow> Inl (NullPointer, (h, b2))
                          | (Inl e, _) \<Rightarrow> Inl (e, (h, b2))
                          | (_, Inl e) \<Rightarrow> Inl (e, (h, b2))))))"

text \<open>\<open>Base::update\<close> takes the mutex of the Base and calls \<open>unsafeUpdate\<close>.\<close>

definition update ::
  "ext \<Rightarrow> real \<Rightarrow> Feature list \<Rightarrow> Args \<Rightarrow> heap \<times> Base \<Rightarrow> (heap \<times> Base) result" where
  "update X label features args s = unsafeUpdate X label features args s"

text \<open>
  \<open>Base::vecTo\<close>. The pointer is passed by value: the result holds the store and the
  last value of the local \<open>vec\<close>, which the caller never sees.
\<close>

definition vecTo :: "heap \<Rightarrow> addr option \<Rightarrow> RepresentationType \<Rightarrow> (heap \<times> addr option) result" where
  "vecTo h vec type =
     (case vec of
        None \<Rightarrow> Inr (h, vec)
      | Some a \<Rightarrow>
         (case deref h a of
            None \<Rightarrow> Inl (DanglingPointer, (h, vec))
          | Some v \<Rightarrow>
             (if type = dense \<and> \<not> isDense v
              then (let (h', newVec) = new h (toDense v) in Inr (delete h' a, Some newVec))
              else if type = map_rep \<and> \<not> isMap v
              then (let (h', newVec) = new h (toMap v) in Inr (delete h' a, Some newVec))
              else if type = sparse \<and> \<not> isSparse v
              then (let (h', newVec) = new h (toSparse v) in Inr (delete h' a, Some newVec))
              else Inl (InvalidArgument ''Unknown representation type'', (h, vec)))))"

text \<open>\<open>Base::to\<close>: \<open>vecTo(W, type); vecTo(G, type);\<close>, the fields are not assigned.\<close>

definition to :: "RepresentationType \<Rightarrow> heap \<times> Base \<Rightarrow> (heap \<times> Base) result" where
  "to type s =
     (let (h, b) = s
      in case vecTo h (W b) type of
           Inl (e, (h1, vec)) \<Rightarrow> Inl (e, (h1, b))
         | Inr (h1, vec) \<Rightarrow>
            (case vecTo h1 (G b) type of
               Inl (e, (h2, vec')) \<Rightarrow> Inl (e, (h2, b))
             | Inr (h2, vec') \<Rightarrow> Inr (h2, b)))"

text \<open>
  \<open>Base::save\<close>: the three scalar fields, and for more than one class the size and
  the count of non-zero weights of \<open>W\<close>, the vector itself, the flag of the
  gradients and, when it is set, \<open>G\<close>.
\<close>

definition save :: "ext \<Rightarrow> bool \<Rightarrow> heap \<times> Base \<Rightarrow> error + var list" where
  "save X saveGrads s =
     (let (h, b) = s;
          header = [IntVar (classCount b), IntVar (firstClass b), LossVar (lossType b)]
      in if classCount b > 1 then
           (case pointee h (W b) of
              Inl e \<Rightarrow> Inl e
            | Inr None \<Rightarrow> Inl NullPointer
            | Inr (Some w) \<Rightarrow>
               (let body = header @ [SizeVar (vsize w), SizeVar (nonZero X w)] @ vsave X w;
                    grads = (saveGrads \<and> G b \<noteq> None)
                in if grads then
                     (case pointee h (G b) of
                        Inr (Some g) \<Rightarrow> Inr (body @ [BoolVar grads] @ vsave X g)
                      | Inr None \<Rightarrow> Inl NullPointer
                      | Inl e \<Rightarrow> Inl e)
                   else Inr (body @ [BoolVar grads])))
         else Inr header)"

text \<open>\<open>loadVar\<close> for each kind of value.\<close>

fun loadInt :: "var list \<Rightarrow> (int \<times> var list) option" where
  "loadInt (IntVar i # rest) = Some (i, rest)" | "loadInt _ = None"

fun loadSize :: "var list \<Rightarrow> (nat \<times> var list) option" where
  "loadSize (SizeVar i # rest) = Some (i, rest)" | "loadSize _ = None"

fun loadBool :: "var list \<Rightarrow> (bool \<times> var list) option" where
  "loadBool (BoolVar i # rest) = Some (i, rest)" | "loadBool _ = None"

fun loadLoss :: "var list \<Rightarrow> (LossType \<times> var list) option" where
  "loadLoss (LossVar i # rest) = Some (i, rest)" | "loadLoss _ = None"

text \<open>
  The part of \<open>Base::load\<close> for more than one class: the representation is chosen,
  \<open>W\<close> and \<open>G\<close> are allocated, \<open>W\<close> is read, and \<open>G\<close> is read, or skipped and
  deleted (the field keeps the deleted address).
\<close>

definition load_weights ::
  "ext \<Rightarrow> bool \<Rightarrow> RepresentationType \<Rightarrow> var list \<Rightarrow> heap \<times> Base \<Rightarrow> (var list \<times> heap \<times> Base) result" where
  "load_weights X loadGrads loadAs inp s =
     (let (h, b) = s
      in case loadSize inp of
           None \<Rightarrow> Inl (StreamEnd, (inp, s))
         | Some (sz, in1) \<Rightarrow>
        (case loadSize in1 of
           None \<Rightarrow> Inl (StreamEnd, (in1, s))
         | Some (n0, in2) \<Rightarrow>
            (let denseSize = denseEstimateMem X sz n0;
                 mapSize = mapEstimateMem X sz n0;
                 loadSparse = (mapSize < denseSize \<or> sz = 0);
                 fresh = (if loadSparse \<and> loadAs = map_rep then MapVector 0 []
                          else if loadAs = sparse then SparseVector 0 []
                          else Vector []);
                 (h1, aw) = new h fresh;
                 (h2, ag) = new h1 fresh;
                 b1 = b\<lparr>W := Some aw, G := Some ag\<rparr>
             in case vload X fresh in2 of
                  None \<Rightarrow> Inl (StreamEnd, (in2, (h2, b1)))
                | Some (w, in3) \<Rightarrow>
                   (let h3 = h2[aw := Some w]
                    in case loadBool in3 of
                         None \<Rightarrow> Inl (StreamEnd, (in3, (h3, b1)))
                       | Some (grads, in4) \<Rightarrow>
                          (if grads then
                             (if loadGrads then
                                (case vload X fresh in4 of
                                   None \<Rightarrow> Inl (StreamEnd, (in4, (h3, b1)))
                                 | Some (g, in5) \<Rightarrow> Inr (in5, (h3[ag := Some g], b1)))
                              else
                                (case vskipLoad X fresh in4 of
                                   None \<Rightarrow> Inl (StreamEnd, (in4, (h3, b1)))
                                 | Some in5 \<Rightarrow> Inr (in5, (delete h3 ag, b1))))
                           else Inr (in4, (h3, b1)))))))"

text \<open>\<open>Base::load\<close>; the result holds what is left of the stream.\<close>

definition load ::
  "ext \<Rightarrow> bool \<Rightarrow> RepresentationType \<Rightarrow> var list \<Rightarrow> heap \<times> Base \<Rightarrow> (var list \<times> heap \<times> Base) result" where
  "load X loadGrads loadAs inp s =
     (let (h, b) = s
      in case loadInt inp of
           None \<Rightarrow> Inl (StreamEnd, (inp, s))
         | Some (cc, in1) \<Rightarrow>
        (case loadInt in1 of
           None \<Rightarrow> Inl (StreamEnd, (in1, (h, b\<lparr>classCount := cc\<rparr>)))
         | Some (fc, in2) \<Rightarrow>
        (case loadLoss in2 of
           None \<Rightarrow> Inl (StreamEnd, (in2, (h, b\<lparr>classCount := cc, firstClass := fc\<rparr>)))
         | Some (lt, in3) \<Rightarrow>
            (let b1 = b\<lparr>classCount := cc, firstClass := fc, lossType := lt\<rparr>
             in if cc > 1 then load_weights X loadGrads loadAs in3 (h, b1)
                else Inr (in3, (h, b1))))))"

section \<open>PLTree (pltree.cpp)\<close>

text \<open>
  The nodes live in the vector \<open>tree\<close>; a \<open>TreeNode*\<close> is the position of the node
  in that vector. \<open>new TreeNode()\<close> gives a node with no parent and no children.
  \<open>treeLeaves\<close> maps a label to its leaf.
\<close>

record TreeNode =
  index :: int
  label :: int
  parent :: "nat option"
  children :: "nat list"

record PLTree =
  tree_k :: int
  tree_t :: int
  tree :: "TreeNode list"
  treeRoot :: nat
  treeLeaves :: "int \<Rightarrow> nat option"

text \<open>\<open>PLTree::PLTree()\<close>: empty containers.\<close>

definition PLTree_init :: PLTree where
  "PLTree_init = \<lparr>tree_k = 0, tree_t = 0, tree = [], treeRoot = 0, treeLeaves = (\<lambda>l. None)\<rparr>"

definition new_TreeNode :: TreeNode where
  "new_TreeNode = \<lparr>index = 0, label = 0, parent = None, children = []\<rparr>"

subsection \<open>buildCompleteTree\<close>

text \<open>
  The number of nodes. For \<open>arity > 2\<close> the source computes in doubles; here the
  same expressions are exact. \<open>complete_t_with m\<close> is the computation for the
  exponent \<open>m = floor(log(k) / log(arity))\<close>, which is the integer logarithm
  \<open>floorlog arity k - 1\<close> (for \<open>k \<ge> 1\<close>).
\<close>

definition complete_t_with :: "nat \<Rightarrow> int \<Rightarrow> int \<Rightarrow> int" where
  "complete_t_with m k arity =
     (let a = real_of_int arity ^ m;
          b = real_of_int k - a;
          c = real_of_int \<lceil>b / (real_of_int arity - 1)\<rceil>;
          d = (real_of_int arity * a - 1) / (real_of_int arity - 1);
          e = real_of_int k - (a - c)
      in trunc (e + d))"

definition complete_t :: "int \<Rightarrow> int \<Rightarrow> int" where
  "complete_t k arity =
     (if arity > 2 then complete_t_with (floorlog (nat arity) (nat k) - 1) k arity
      else 2 * k - 1)"

text \<open>
  One round of the loop over \<open>i\<close>: the node gets its index, a label when
  \<open>i >= ti\<close> (an unsigned comparison), its parent \<open>floor((i - 1) / arity)\<close> when
  \<open>i > 0\<close>, and is pushed.
\<close>

definition insert_leaf :: "(int \<Rightarrow> nat option) \<Rightarrow> int \<Rightarrow> nat \<Rightarrow> (int \<Rightarrow> nat option)" where
  "insert_leaf m l pos = (case m l of None \<Rightarrow> m(l \<mapsto> pos) | Some q \<Rightarrow> m)"

definition push_child :: "TreeNode list \<Rightarrow> nat \<Rightarrow> nat \<Rightarrow> TreeNode list" where
  "push_child tr p c = tr[p := (tr ! p)\<lparr>children := children (tr ! p) @ [c]\<rparr>]"

definition build_node :: "int \<Rightarrow> int \<Rightarrow> bool \<Rightarrow> int list \<Rightarrow> PLTree \<Rightarrow> nat \<Rightarrow> PLTree" where
  "build_node arity ti randomizeTree labelsOrder T i =
     (let pos = length (tree T);
          n0 = new_TreeNode\<lparr>index := int i, label := - 1\<rparr>;
          isLeaf = (0 \<le> ti \<and> int i \<ge> ti);
          n1 = (if isLeaf
                then n0\<lparr>label := (if randomizeTree then labelsOrder ! (i - nat ti) else int i - ti)\<rparr>
                else n0);
          leaves = (if isLeaf then insert_leaf (treeLeaves T) (label n1) pos else treeLeaves T);
          pa = nat \<lfloor>real_of_int (index n1 - 1) / real_of_int arity\<rfloor>;
          n2 = (if i > 0 then n1\<lparr>parent := Some pa\<rparr> else n1);
          tr = (if i > 0 then push_child (tree T) pa pos else tree T)
      in T\<lparr>tree := tr @ [n2], treeLeaves := leaves\<rparr>)"

text \<open>
  \<open>PLTree::buildCompleteTree\<close> on a fresh object. \<open>labelsOrder\<close> is what
  \<open>std::random_shuffle\<close> left of \<open>0 .. k - 1\<close>. A negative \<open>t\<close> makes the loop run
  out of memory; an empty tree has no \<open>tree[0]\<close>.
\<close>

definition buildCompleteTree :: "int \<Rightarrow> int \<Rightarrow> bool \<Rightarrow> int list \<Rightarrow> error + PLTree" where
  "buildCompleteTree labelCount arity0 randomizeTree labelsOrder =
     (let k = labelCount;
          t = complete_t k arity0;
          arity = (if arity0 > 2 then arity0 else 2);
          ti = t - k
      in if t < 0 then Inl BadAlloc
         else
           (let T = foldl (build_node arity ti randomizeTree labelsOrder)
                      (PLTree_init\<lparr>tree_k := k, tree_t := t\<rparr>) [0..<nat t]
            in if tree T = [] then Inl OutOfRange
               else Inr (T\<lparr>treeRoot := 0, tree := (tree T)[0 := (tree T ! 0)\<lparr>parent := None\<rparr>]\<rparr>)))"

subsection \<open>save and load\<close>

text \<open>
  The stream of a tree is a list of \<open>int\<close>s, one per \<open>write\<close>. \<open>PLTree::save\<close>
  sets \<open>t\<close> to the size of \<open>tree\<close> and writes \<open>k\<close>, \<open>t\<close>, the pairs
  \<open>(index, label)\<close>, the index of the root, and the index of each parent, or \<open>-1\<close>.
\<close>

fun save_nodes :: "TreeNode list \<Rightarrow> int list \<Rightarrow> int list" where
  "save_nodes [] out = out"
| "save_nodes (n # ns) out = save_nodes ns (out @ [index n, label n])"

fun save_parents :: "TreeNode list \<Rightarrow> TreeNode list \<Rightarrow> int list \<Rightarrow> error + int list" where
  "save_parents tr [] out = Inr out"
| "save_parents tr (n # ns) out =
     (case parent n of
        None \<Rightarrow> save_parents tr ns (out @ [- 1])
      | Some p \<Rightarrow>
          if p < length tr then save_parents tr ns (out @ [index (tr ! p)])
          else Inl DanglingPointer)"

definition PLTree_save :: "PLTree \<Rightarrow> error + PLTree \<times> int list" where
  "PLTree_save T0 =
     (let out1 = [tree_k T0];
          T = T0\<lparr>tree_t := int (length (tree T0))\<rparr>;
          out2 = save_nodes (tree T) (out1 @ [tree_t T])
      in if treeRoot T < length (tree T) then
           (let rootN = index (tree T ! treeRoot T)
            in case save_parents (tree T) (tree T) (out2 @ [rootN]) of
                 Inl e \<Rightarrow> Inl e
               | Inr out \<Rightarrow> Inr (T, out))
         else Inl DanglingPointer)"

text \<open>
  \<open>PLTree::load\<close>: the first loop pushes \<open>t\<close> nodes and fills \<open>treeLeaves\<close>, the
  root is \<open>tree[rootN]\<close>, and the second loop links \<open>tree[i]\<close> to \<open>tree[parentN]\<close>
  when \<open>parentN >= 0\<close>.
\<close>

fun load_nodes :: "nat \<Rightarrow> int list \<Rightarrow> PLTree \<Rightarrow> error + int list \<times> PLTree" where
  "load_nodes 0 inp T = Inr (inp, T)"
| "load_nodes (Suc c) inp T =
     (case inp of
        idx # lbl # rest \<Rightarrow>
          (let pos = length (tree T);
               n = new_TreeNode\<lparr>index := idx, label := lbl\<rparr>;
               T1 = T\<lparr>tree := tree T @ [n]\<rparr>
           in load_nodes c rest
                (if lbl \<ge> 0 then T1\<lparr>treeLeaves := (treeLeaves T1)(lbl \<mapsto> pos)\<rparr> else T1))
      | _ \<Rightarrow> Inl StreamEnd)"

fun load_parents :: "nat \<Rightarrow> nat \<Rightarrow> int list \<Rightarrow> TreeNode list \<Rightarrow> error + int list \<times> TreeNode list" where
  "load_parents i 0 inp tr = Inr (inp, tr)"
| "load_parents i (Suc c) inp tr =
     (case inp of
        [] \<Rightarrow> Inl StreamEnd
      | parentN # rest \<Rightarrow>
          if \<not> i < length tr then Inl OutOfRange
          else if parentN \<ge> 0 then
            (if nat parentN < length tr then
               (let tr1 = push_child tr (nat parentN) i;
                    tr2 = tr1[i := (tr1 ! i)\<lparr>parent := Some (nat parentN)\<rparr>]
                in load_parents (Suc i) c rest tr2)
             else Inl OutOfRange)
          else load_parents (Suc i) c rest tr)"

definition PLTree_load :: "int list \<Rightarrow> PLTree \<Rightarrow> error + int list \<times> PLTree" where
  "PLTree_load inp T0 =
     (case inp of
        k # t # in2 \<Rightarrow>
          if t < 0 then Inl BadAlloc
          else
            (case load_nodes (nat t) in2 (T0\<lparr>tree_k := k, tree_t := t\<rparr>) of
               Inl e \<Rightarrow> Inl e
             | Inr (in3, T1) \<Rightarrow>
                (case in3 of
                   [] \<Rightarrow> Inl StreamEnd
                 | rootN # in4 \<Rightarrow>
                     if 0 \<le> rootN \<and> nat rootN < length (tree T1) then
                       (case load_parents 0 (nat t) in4 (tree T1) of
                          Inl e \<Rightarrow> Inl e
                        | Inr (in5, tr) \<Rightarrow> Inr (in5, T1\<lparr>treeRoot := nat rootN, tree := tr\<rparr>))
                     else Inl OutOfRange))
      | _ \<Rightarrow> Inl StreamEnd)"

subsection \<open>Assigning a row to the nodes (PLTree::train)\<close>

text \<open>
  A \<open>std::unordered_set<TreeNode*>\<close> is a list without repetition; only its set of
  elements is used. The walk from a leaf along \<open>n->parent\<close> and the queue of the
  search from the root may not end on a structure that is no tree: then the result
  is \<open>None\<close>.
\<close>

partial_function (option) walk_up :: "TreeNode list \<Rightarrow> nat \<Rightarrow> nat list \<Rightarrow> (error + nat list) option" where
  "walk_up tr n nPositive =
     (if n < length tr then
        (case parent (tr ! n) of
           None \<Rightarrow> Some (Inr nPositive)
         | Some p \<Rightarrow> walk_up tr p (List.insert p nPositive))
      else Some (Inl DanglingPointer))"

text \<open>
  The loop over the labels of the row. \<open>treeLeaves[l]\<close> of a label that has no leaf
  is a null pointer, which the walk dereferences.
\<close>

fun positive_nodes :: "PLTree \<Rightarrow> int list \<Rightarrow> nat list \<Rightarrow> (error + nat list) option" where
  "positive_nodes T [] nPositive = Some (Inr nPositive)"
| "positive_nodes T (l # ls) nPositive =
     (case treeLeaves T l of
        None \<Rightarrow> Some (Inl NullPointer)
      | Some n \<Rightarrow>
         (case walk_up (tree T) n (List.insert n nPositive) of
            None \<Rightarrow> None
          | Some (Inl e) \<Rightarrow> Some (Inl e)
          | Some (Inr P) \<Rightarrow> positive_nodes T ls P))"

definition visit_child :: "nat list \<Rightarrow> nat \<Rightarrow> nat list \<times> nat list \<Rightarrow> nat list \<times> nat list" where
  "visit_child nPositive child qn =
     (let (nQueue, nNegative) = qn
      in if child \<in> set nPositive then (nQueue @ [child], nNegative)
         else (nQueue, List.insert child nNegative))"

partial_function (option) negative_nodes ::
  "TreeNode list \<Rightarrow> nat list \<Rightarrow> nat list \<Rightarrow> nat list \<Rightarrow> (error + nat list) option" where
  "negative_nodes tr nPositive nQueue nNegative =
     (case nQueue of
        [] \<Rightarrow> Some (Inr nNegative)
      | n # rest \<Rightarrow>
          if n < length tr then
            (let (q, N) = fold (visit_child nPositive) (children (tr ! n)) (rest, nNegative)
             in negative_nodes tr nPositive q N)
          else Some (Inl DanglingPointer))"

text \<open>The two sets of a row with the labels \<open>rLabels\<close>.\<close>

definition assign_nodes :: "PLTree \<Rightarrow> int list \<Rightarrow> (error + nat list \<times> nat list) option" where
  "assign_nodes T rLabels =
     (if length rLabels > 0 then
        (case positive_nodes T rLabels [] of
           None \<Rightarrow> None
         | Some (Inl e) \<Rightarrow> Some (Inl e)
         | Some (Inr nPositive) \<Rightarrow>
            (case negative_nodes (tree T) nPositive [treeRoot T] [] of
               None \<Rightarrow> None
             | Some (Inl e) \<Rightarrow> Some (Inl e)
             | Some (Inr nNegative) \<Rightarrow> Some (Inr (nPositive, nNegative))))
      else Some (Inr ([], [treeRoot T])))"

text \<open>
  \<open>binLabels[n->index].push_back(l); binFeatures[n->index].push_back(row)\<close> for the
  nodes of a set: the two vectors (\<open>bLabels\<close>, \<open>bFeatures\<close>) are indexed by the
  index of the node, unchecked.
\<close>

type_synonym buckets = "real list list \<times> Feature list list list"

fun push_rows :: "TreeNode list \<Rightarrow> real \<Rightarrow> Feature list \<Rightarrow> nat list \<Rightarrow> buckets \<Rightarrow> error + buckets" where
  "push_rows tr l row [] bs = Inr bs"
| "push_rows tr l row (n # ns) (bLabels, bFeatures) =
     (if n < length tr then
        (let i = index (tr ! n)
         in if 0 \<le> i \<and> nat i < length bLabels \<and> nat i < length bFeatures
            then push_rows tr l row ns
                   (bLabels[nat i := bLabels ! nat i @ [l]],
                    bFeatures[nat i := bFeatures ! nat i @ [row]])
            else Inl OutOfRange)
      else Inl DanglingPointer)"

text \<open>The body of the loop over the rows, for the row \<open>r\<close>.\<close>

definition assign_row :: "PLTree \<Rightarrow> int list \<Rightarrow> Feature list \<Rightarrow> buckets \<Rightarrow> (error + buckets) option" where
  "assign_row T rLabels row bs =
     (case assign_nodes T rLabels of
        None \<Rightarrow> None
      | Some (Inl e) \<Rightarrow> Some (Inl e)
      | Some (Inr (nPositive, nNegative)) \<Rightarrow>
         (case push_rows (tree T) 1 row nPositive bs of
            Inl e \<Rightarrow> Some (Inl e)
          | Inr bs1 \<Rightarrow> Some (push_rows (tree T) 0 row nNegative bs1)))"

fun assign_rows ::
  "PLTree \<Rightarrow> (int list \<times> Feature list) list \<Rightarrow> buckets \<Rightarrow> (error + buckets) option" where
  "assign_rows T [] bs = Some (Inr bs)"
| "assign_rows T ((rLabels, row) # rest) bs =
     (case assign_row T rLabels row bs of
        None \<Rightarrow> None
      | Some (Inl e) \<Rightarrow> Some (Inl e)
      | Some (Inr bs1) \<Rightarrow> assign_rows T rest bs1)"

text \<open>
  The gathering part of \<open>PLTree::train\<close>, after the two assertions:
  \<open>binLabels\<close> and \<open>binFeatures\<close> are created with \<open>rows\<close> entries, then every
  row is assigned. The number of columns of the matrix of labels is read as the
  largest label plus one.
\<close>

definition cols :: "int list list \<Rightarrow> int" where
  "cols labels = fold (\<lambda>l m. max (l + 1) m) (concat labels) 0"

definition gather_examples ::
  "PLTree \<Rightarrow> int list list \<Rightarrow> Feature list list \<Rightarrow> (error + buckets) option" where
  "gather_examples T labels features =
     (let rows = length features
      in if rows \<noteq> length labels then Some (Inl AssertionFailed)
         else if \<not> tree_k T \<ge> cols labels then Some (Inl AssertionFailed)
         else assign_rows T (zip labels features) (replicate rows [], replicate rows []))"

subsection \<open>predict\<close>

text \<open>
  A \<open>TreeNodeProb\<close> is a node with a probability. Modelled from the spec: the order
  of \<open>TreeNodeProb\<close> (pltree.h) is not among the sources; the queue is a
  max-priority queue on the probability. Here it is the list of its elements,
  \<open>top\<close> is the first of the largest ones.
\<close>

type_synonym TreeNodeProb = "nat \<times> real"

fun top :: "TreeNodeProb \<Rightarrow> TreeNodeProb list \<Rightarrow> TreeNodeProb" where
  "top m [] = m"
| "top m (x # xs) = top (if snd m < snd x then x else m) xs"

text \<open>
  \<open>bases[n->index]->predict(features)\<close>: \<open>bases\<close> holds, for each base, the
  probability that it predicts for the feature vector of the call; \<open>in_bases\<close> says
  that the index of the node is inside the vector.
\<close>

definition in_bases :: "TreeNode list \<Rightarrow> nat \<Rightarrow> nat \<Rightarrow> bool" where
  "in_bases tr nb n \<longleftrightarrow> 0 \<le> index (tr ! n) \<and> nat (index (tr ! n)) < nb"

definition base_predict :: "real list \<Rightarrow> TreeNode list \<Rightarrow> nat \<Rightarrow> real" where
  "base_predict bases tr n = bases ! nat (index (tr ! n))"

definition push_children ::
  "TreeNode list \<Rightarrow> real list \<Rightarrow> real \<Rightarrow> nat list \<Rightarrow> TreeNodeProb list \<Rightarrow> TreeNodeProb list" where
  "push_children tr bases p cs nQueue =
     fold (\<lambda>child q. q @ [(child, p * base_predict bases tr child)]) cs nQueue"

text \<open>
  The loop of \<open>PLTree::predict\<close>. The test \<open>prediction.size() >= k\<close> is unsigned: a
  negative \<open>k\<close> never stops the loop. A child outside \<open>tree\<close> or a base outside
  \<open>bases\<close> is an error.
\<close>

partial_function (option) predict_loop ::
  "TreeNode list \<Rightarrow> real list \<Rightarrow> int \<Rightarrow> TreeNodeProb list \<Rightarrow> TreeNodeProb list
     \<Rightarrow> (error + TreeNodeProb list) option" where
  "predict_loop tr bases k nQueue prediction =
     (case nQueue of
        [] \<Rightarrow> Some (Inr prediction)
      | x # xs \<Rightarrow>
         (let np = top x xs;
              q = remove1 np nQueue
          in if fst np < length tr then
               (if label (tr ! fst np) \<ge> 0 then
                  (let prediction' = prediction @ [np]
                   in if 0 \<le> k \<and> int (length prediction') \<ge> k then Some (Inr prediction')
                      else predict_loop tr bases k q prediction')
                else
                  (if \<not> (\<forall>child \<in> set (children (tr ! fst np)). child < length tr)
                   then Some (Inl DanglingPointer)
                   else if \<not> (\<forall>child \<in> set (children (tr ! fst np)).
                                 in_bases tr (length bases) child)
                   then Some (Inl OutOfRange)
                   else predict_loop tr bases k
                          (push_children tr bases (snd np) (children (tr ! fst np)) q) prediction))
             else Some (Inl DanglingPointer)))"

text \<open>
  \<open>PLTree::predict\<close>: the queue starts with the root and the probability of its
  base.
\<close>

definition predict ::
  "PLTree \<Rightarrow> TreeNodeProb list \<Rightarrow> real list \<Rightarrow> int \<Rightarrow> (error + TreeNodeProb list) option" where
  "predict T prediction bases k =
     (if treeRoot T < length (tree T) then
        (if in_bases (tree T) (length bases) (treeRoot T)
         then predict_loop (tree T) bases k
                [(treeRoot T, base_predict bases (tree T) (treeRoot T))] prediction
         else Some (Inl OutOfRange))
      else Some (Inl DanglingPointer))"

section \<open>The predict command (main.cpp)\<close>

text \<open>
  \<open>model->predict\<close>, the data reader and the printing of numbers are parameters:
  \<open>M\<close> gives the predictions \<open>(label, value)\<close> of a row, \<open>show_int\<close> and
  \<open>show_double\<close> print an \<open>int\<close> and a \<open>double\<close> (at precision 5). The rows of the
  matrices are read unchecked.
\<close>

type_synonym Prediction = "int \<times> real"

definition print_row ::
  "(int \<Rightarrow> string) \<Rightarrow> (real \<Rightarrow> string) \<Rightarrow> int list \<Rightarrow> Prediction list \<Rightarrow> string" where
  "print_row show_int show_double rLabels prediction =
     show_int (case rLabels of [] \<Rightarrow> - 1 | l # ls \<Rightarrow> l)
     @ concat (map (\<lambda>(l, v). '' '' @ show_int l @ '':'' @ show_double v) prediction)
     @ ''\<newline>''"

function predict_rows ::
  "(Feature list \<Rightarrow> Prediction list) \<Rightarrow> (int \<Rightarrow> string) \<Rightarrow> (real \<Rightarrow> string) \<Rightarrow>
   int list list \<Rightarrow> Feature list list \<Rightarrow> int \<Rightarrow> string list \<Rightarrow> error + string list" where
  "predict_rows M show_int show_double labels features r out =
     (if r < 5000 then
        (if 0 \<le> r \<and> nat r < length features \<and> nat r < length labels
         then predict_rows M show_int show_double labels features (r + 1)
                (out @ [print_row show_int show_double (labels ! nat r) (M (features ! nat r))])
         else Inl OutOfRange)
      else Inr out)"
  by pat_completeness auto
termination
  by (relation "measure (\<lambda>(M, si, sd, labels, features, r, out). nat (5000 - r))") auto

declare predict_rows.simps [simp del]

text \<open>\<open>predict\<close> of main.cpp: nothing is printed for the input \<open>-\<close>.\<close>

definition main_predict ::
  "(Feature list \<Rightarrow> Prediction list) \<Rightarrow> (int \<Rightarrow> string) \<Rightarrow> (real \<Rightarrow> string) \<Rightarrow>
   string \<Rightarrow> int list list \<Rightarrow> Feature list list \<Rightarrow> error + string list" where
  "main_predict M show_int show_double input labels features =
     (if input = ''-'' then Inr []
      else predict_rows M show_int show_double labels features 0 [])"

section \<open>Notions of the specification\<close>

subsection \<open>Valid trees\<close>

text \<open>
  The number of steps from a node to a node without parent, with a bound on the
  number of steps.
\<close>

fun depth :: "TreeNode list \<Rightarrow> nat \<Rightarrow> nat \<Rightarrow> nat option" where
  "depth tr 0 i = None"
| "depth tr (Suc f) i =
     (if i < length tr then
        (case parent (tr ! i) of None \<Rightarrow> Some 0 | Some p \<Rightarrow> map_option Suc (depth tr f p))
      else None)"

text \<open>
  A valid tree, as every builder of the program leaves it: the index of a node is
  its position; one node, the root, has no parent; \<open>parent\<close> and \<open>children\<close> are
  inverse to each other; every node reaches the root; the leaves (the nodes with a
  label \<open>\<ge> 0\<close>) hold distinct labels, and \<open>treeLeaves\<close> maps each such label to its
  leaf.
\<close>

definition valid_tree :: "PLTree \<Rightarrow> bool" where
  "valid_tree T \<longleftrightarrow>
     treeRoot T < length (tree T) \<and>
     (\<forall>i < length (tree T). index (tree T ! i) = int i) \<and>
     (\<forall>i < length (tree T). (parent (tree T ! i) = None) = (i = treeRoot T)) \<and>
     (\<forall>i < length (tree T). \<forall>p. parent (tree T ! i) = Some p \<longrightarrow>
         p < length (tree T) \<and> i \<in> set (children (tree T ! p))) \<and>
     (\<forall>p < length (tree T). \<forall>c \<in> set (children (tree T ! p)).
         c < length (tree T) \<and> parent (tree T ! c) = Some p) \<and>
     (\<forall>i < length (tree T). depth (tree T) (length (tree T)) i \<noteq> None) \<and>
     (\<forall>i < length (tree T). \<forall>j < length (tree T).
         label (tree T ! i) \<ge> 0 \<and> label (tree T ! i) = label (tree T ! j) \<longrightarrow> i = j) \<and>
     (\<forall>i < length (tree T). label (tree T ! i) \<ge> 0 \<longrightarrow>
         treeLeaves T (label (tree T ! i)) = Some i) \<and>
     (\<forall>l i. treeLeaves T l = Some i \<longrightarrow> i < length (tree T) \<and> label (tree T ! i) = l \<and> l \<ge> 0)"




subsection \<open>The size of a complete tree\<close>

text \<open>The number of nodes of a complete tree of \<open>k\<close> labels and arity \<open>a > 2\<close>.\<close>

definition formula_t :: "int \<Rightarrow> int \<Rightarrow> int" where
  "formula_t k a =
     (let A = real_of_int a ^ nat \<lfloor>log (real_of_int a) (real_of_int k)\<rfloor>;
          B = real_of_int k - A;
          C = real_of_int \<lceil>B / (real_of_int a - 1)\<rceil>;
          D = (real_of_int a * A - 1) / (real_of_int a - 1);
          E = real_of_int k - (A - C)
      in \<lfloor>E + D\<rfloor>)"

text \<open>
  What the loop of \<open>buildCompleteTree\<close> gives the node \<open>i\<close>: its index, its
  label (\<open>-1\<close> below \<open>ti\<close>), its parent.
\<close>

definition node_ok :: "int \<Rightarrow> int \<Rightarrow> bool \<Rightarrow> int list \<Rightarrow> TreeNode \<Rightarrow> nat \<Rightarrow> bool" where
  "node_ok arity ti rnd lo n i \<longleftrightarrow>
     index n = int i \<and>
     label n = (if int i \<ge> ti then (if rnd then lo ! (i - nat ti) else int i - ti) else - 1) \<and>
     parent n = (if 0 < i then Some ((i - 1) div nat arity) else None)"

subsection \<open>The stream of a tree\<close>

text \<open>
  The index written for the parent of a node, the node that the first loop of
  \<open>load\<close> makes of a saved node, and the map of the leaves after that loop.
\<close>

definition parentN :: "TreeNode list \<Rightarrow> TreeNode \<Rightarrow> int" where
  "parentN tr n = (case parent n of None \<Rightarrow> - 1 | Some p \<Rightarrow> index (tr ! p))"

definition bare :: "TreeNode \<Rightarrow> TreeNode" where
  "bare n = new_TreeNode\<lparr>index := index n, label := label n\<rparr>"

fun leaves_of :: "(int \<Rightarrow> nat option) \<Rightarrow> nat \<Rightarrow> TreeNode list \<Rightarrow> (int \<Rightarrow> nat option)" where
  "leaves_of m pos [] = m"
| "leaves_of m pos (n # ns) =
     leaves_of (if label n \<ge> 0 then m(label n \<mapsto> pos) else m) (Suc pos) ns"

subsection \<open>The order of the queue of predict\<close>



subsection \<open>Equal weight vectors\<close>

definition same_values :: "AbstractVector \<Rightarrow> AbstractVector \<Rightarrow> bool" where
  "same_values v v' \<longleftrightarrow> vsize v' = vsize v \<and> (\<forall>i < vsize v. at_vec v' i = at_vec v i)"

text \<open>
  What the round trip of a Base needs of the serialisation of a vector, whatever
  the empty vector that \<open>load\<close> reads into: \<open>load\<close> and \<open>skipLoad\<close> take from the
  stream what \<open>save\<close> wrote, and \<open>load\<close> gives the same logical values.
\<close>

definition codec_ok :: "ext \<Rightarrow> bool" where
  "codec_ok X \<longleftrightarrow>
     (\<forall>v rest. \<forall>e \<in> {Vector [], MapVector 0 [], SparseVector 0 []}.
        (\<exists>v'. vload X e (vsave X v @ rest) = Some (v', rest) \<and> same_values v v') \<and>
        vskipLoad X e (vsave X v @ rest) = Some rest)"

section \<open>Instances\<close>

text \<open>
  Concrete collaborators and inputs, on which the definitions are run: a
  serialisation of a vector as its size and its dense values, gradients and update
  rules that are told apart by their results, and the complete binary tree of two
  labels.
\<close>

fun like :: "AbstractVector \<Rightarrow> AbstractVector \<Rightarrow> AbstractVector" where
  "like (Vector xs) v = toDense v"
| "like (MapVector s m) v = toMap v"
| "like (SparseVector s m) v = toSparse v"

fun doubles :: "nat \<Rightarrow> var list \<Rightarrow> (real list \<times> var list) option" where
  "doubles 0 inp = Some ([], inp)"
| "doubles (Suc n) (DoubleVar x # inp) =
     (case doubles n inp of None \<Rightarrow> None | Some (xs, rest) \<Rightarrow> Some (x # xs, rest))"
| "doubles (Suc n) _ = None"

definition vsave_ex :: "AbstractVector \<Rightarrow> var list" where
  "vsave_ex v = SizeVar (vsize v) # map (\<lambda>i. DoubleVar (at_vec v i)) [0..<vsize v]"

fun vload_ex :: "AbstractVector \<Rightarrow> var list \<Rightarrow> (AbstractVector \<times> var list) option" where
  "vload_ex e (SizeVar n # inp) =
     (case doubles n inp of None \<Rightarrow> None | Some (xs, rest) \<Rightarrow> Some (like e (Vector xs), rest))"
| "vload_ex e _ = None"

definition ext0 :: ext where
  "ext0 = \<lparr>logisticGrad = (\<lambda>l pred w. 1), squaredHingeGrad = (\<lambda>l pred w. 2),
     pwLogisticGrad = (\<lambda>l pred w. 3),
     updateSGD = (\<lambda>w g f grad t args. (Vector (map (\<lambda>x. x - grad) (map (at_vec w) [0..<vsize w])), g)),
     updateAdaGrad = (\<lambda>w g f grad t args. (Vector (map (\<lambda>x. x - grad) (map (at_vec w) [0..<vsize w])), 
                        Some (Vector (replicate (vsize w) (grad * grad))))),
     train_liblinear = (\<lambda>pd args c. (0, 2, [])),
     prune = (\<lambda>v th. v), insertD = (\<lambda>v i x. v), sparseMem = vsize, denseMem = vsize,
     nonZero = (\<lambda>v. length (entries v)),
     denseEstimateMem = (\<lambda>s n. s), mapEstimateMem = (\<lambda>s n. 2 * n),
     vsave = vsave_ex, vload = vload_ex, vskipLoad = (\<lambda>e inp. map_option snd (vload_ex e inp))\<rparr>"

definition args0 :: Args where
  "args0 = \<lparr>tmax = - 1, lossType = logistic, optimizerType = sgd, solverType = L2R_LR, epochs = 1,
     inbalanceLabelsWeighting = False, weightsThreshold = 0, cost = 1, autoCLog = False,
     autoCLin = False\<rparr>"

definition problem :: "real list \<Rightarrow> Feature list list \<Rightarrow> ProblemData" where
  "problem ls fs = \<lparr>binLabels = ls, binFeatures = fs, instancesWeights = replicate (length ls) 1,
     n_features = 2, r_count = 0, invPs = 1, labelsCount = 0, labels_pd = [], labelsWeights = []\<rparr>"

definition tree3 :: PLTree where
  "tree3 = \<lparr>tree_k = 2, tree_t = 3,
     tree = [\<lparr>index = 0, label = - 1, parent = None, children = [1, 2]\<rparr>,
             \<lparr>index = 1, label = 0, parent = Some 0, children = []\<rparr>,
             \<lparr>index = 2, label = 1, parent = Some 0, children = []\<rparr>],
     treeRoot = 0,
     treeLeaves = (\<lambda>l. if l = 0 then Some 1 else if l = 1 then Some 2 else None)\<rparr>"



section \<open>Properties of Base\<close>

subsection \<open>Degenerate training sets\<close>

lemma count_list_all: "\<forall>l\<in>set xs. l = a \<Longrightarrow> count_list xs a = length xs"
  by (induction xs) auto

lemma count_list_none: "\<forall>l\<in>set xs. l \<noteq> a \<Longrightarrow> count_list xs a = 0"
  by (induction xs) auto

lemma train_empty:
  "binLabels pd = [] \<Longrightarrow> train X pd args (h, b) = Inr (h, b\<lparr>firstClass := 0, classCount := 0\<rparr>)"
  by (simp add: train_def)

lemma train_single_class:
  assumes "binLabels pd \<noteq> []"
    and "length (binLabels pd) = length (binFeatures pd)"
    and "length (binLabels pd) \<le> length (instancesWeights pd)"
    and "count_list (binLabels pd) 1 = 0 \<or> count_list (binLabels pd) 1 = length (binLabels pd)"
  shows "train X pd args (h, b)
         = Inr (h, b\<lparr>firstClass := trunc (hd (binLabels pd)), classCount := 1\<rparr>)"
proof -
  have "binLabels pd ! 0 = hd (binLabels pd)" using assms(1) by (simp add: hd_conv_nth)
  then show ?thesis using assms by (auto simp add: train_def Let_def)
qed

lemma trunc_of_int [simp]: "trunc (real_of_int i) = i"
  by (simp add: trunc_def)

lemma trunc_0 [simp]: "trunc 0 = 0" and trunc_1 [simp]: "trunc 1 = 1"
  by (simp_all add: trunc_def)

text \<open>
  C9. \<open>Base::train\<close> on an empty list of binary labels sets \<open>firstClass = 0\<close> and
  \<open>classCount = 0\<close> and returns; on a list of labels that are all 0 or all 1 (of a
  problem that passes the two assertions on the sizes) it sets \<open>firstClass\<close> to the
  first label and \<open>classCount = 1\<close> and returns. In both cases the store of the
  weight vectors and every other field of the Base, \<open>W\<close> and \<open>G\<close> among them, are
  as before, and the result does not depend on the solver or on any other
  collaborator: no problem is built, no solver runs, no weight vector is made.
\<close>

theorem train_degenerate:
  "(binLabels pd = [] \<longrightarrow>
      train X pd args (h, b) = Inr (h, b\<lparr>firstClass := 0, classCount := 0\<rparr>)) \<and>
   (binLabels pd \<noteq> [] \<and> length (binLabels pd) = length (binFeatures pd) \<and>
    length (binLabels pd) \<le> length (instancesWeights pd) \<and>
    ((\<forall>l\<in>set (binLabels pd). l = 0) \<or> (\<forall>l\<in>set (binLabels pd). l = 1)) \<longrightarrow>
      train X pd args (h, b)
        = Inr (h, b\<lparr>firstClass := trunc (hd (binLabels pd)), classCount := 1\<rparr>) \<and>
      real_of_int (trunc (hd (binLabels pd))) = hd (binLabels pd))"
proof (intro conjI impI)
  assume "binLabels pd = []"
  then show "train X pd args (h, b) = Inr (h, b\<lparr>firstClass := 0, classCount := 0\<rparr>)"
    by (rule train_empty)
next
  assume a: "binLabels pd \<noteq> [] \<and> length (binLabels pd) = length (binFeatures pd) \<and>
    length (binLabels pd) \<le> length (instancesWeights pd) \<and>
    ((\<forall>l\<in>set (binLabels pd). l = 0) \<or> (\<forall>l\<in>set (binLabels pd). l = 1))"
  then have ne: "binLabels pd \<noteq> []" by simp
  have "count_list (binLabels pd) 1 = 0 \<or> count_list (binLabels pd) 1 = length (binLabels pd)"
  proof -
    from a consider "\<forall>l\<in>set (binLabels pd). l = 0" | "\<forall>l\<in>set (binLabels pd). l = 1" by blast
    then show ?thesis
    proof cases
      case 1
      then have "\<forall>l\<in>set (binLabels pd). l \<noteq> 1" by auto
      then show ?thesis by (simp add: count_list_none)
    next
      case 2
      then show ?thesis by (simp add: count_list_all)
    qed
  qed
  then show "train X pd args (h, b)
        = Inr (h, b\<lparr>firstClass := trunc (hd (binLabels pd)), classCount := 1\<rparr>)"
    using a by (intro train_single_class) auto
  from a ne have "hd (binLabels pd) = 0 \<or> hd (binLabels pd) = 1" by (metis hd_in_set)
  then show "real_of_int (trunc (hd (binLabels pd))) = hd (binLabels pd)"
    by auto
qed

theorem train_degenerate_witness:
  "train ext0 (problem [] []) args0 ([], Base_init)
     = Inr ([], Base_init\<lparr>firstClass := 0, classCount := 0\<rparr>) \<and>
   train ext0 (problem [0, 0] [[(1, 1)], [(1, 2)]]) args0 ([], Base_init)
     = Inr ([], Base_init\<lparr>firstClass := 0, classCount := 1\<rparr>) \<and>
   train ext0 (problem [1, 1] [[(1, 1)], [(1, 2)]]) args0 ([], Base_init)
     = Inr ([], Base_init\<lparr>firstClass := 1, classCount := 1\<rparr>)"
  using train_degenerate[of "problem [] []" ext0 args0 "[]" Base_init]
    train_degenerate[of "problem [0, 0] [[(1, 1)], [(1, 2)]]" ext0 args0 "[]" Base_init]
    train_degenerate[of "problem [1, 1] [[(1, 1)], [(1, 2)]]" ext0 args0 "[]" Base_init]
  by (simp add: problem_def)

text \<open>
  C2, as the code has it. A Base trained on an empty dataset has \<open>classCount = 0\<close>
  and \<open>firstClass = 0\<close>, and \<open>predictValue\<close> returns \<open>-10\<close> for every feature
  vector; a Base trained on a dataset whose labels are all 1 has \<open>classCount = 1\<close>
  and \<open>firstClass = 1\<close>, and \<open>predictValue\<close> returns \<open>+10\<close> for every feature vector.
\<close>

theorem degenerate_Base:
  "(binLabels pd = [] \<longrightarrow>
      (\<exists>h' b'. train X pd args (h, b) = Inr (h', b') \<and> classCount b' = 0 \<and> firstClass b' = 0 \<and>
               predictValue h' b' f = Inr (- 10))) \<and>
   (binLabels pd \<noteq> [] \<and> length (binLabels pd) = length (binFeatures pd) \<and>
    length (binLabels pd) \<le> length (instancesWeights pd) \<and> (\<forall>l\<in>set (binLabels pd). l = 1) \<longrightarrow>
      (\<exists>h' b'. train X pd args (h, b) = Inr (h', b') \<and> classCount b' = 1 \<and> firstClass b' = 1 \<and>
               predictValue h' b' f = Inr 10))"
proof (intro conjI impI)
  assume "binLabels pd = []"
  then show "\<exists>h' b'. train X pd args (h, b) = Inr (h', b') \<and> classCount b' = 0 \<and> firstClass b' = 0 \<and>
               predictValue h' b' f = Inr (- 10)"
    by (simp add: train_empty predictValue_def)
next
  assume a: "binLabels pd \<noteq> [] \<and> length (binLabels pd) = length (binFeatures pd) \<and>
    length (binLabels pd) \<le> length (instancesWeights pd) \<and> (\<forall>l\<in>set (binLabels pd). l = 1)"
  then have c: "count_list (binLabels pd) 1 = length (binLabels pd)"
    by (simp add: count_list_all)
  from a have hd1: "hd (binLabels pd) = 1" by (metis hd_in_set)
  have "train X pd args (h, b)
        = Inr (h, b\<lparr>firstClass := trunc (hd (binLabels pd)), classCount := 1\<rparr>)"
    using a c by (intro train_single_class) auto
  then have "train X pd args (h, b) = Inr (h, b\<lparr>firstClass := 1, classCount := 1\<rparr>)"
    by (simp add: hd1)
  then show "\<exists>h' b'. train X pd args (h, b) = Inr (h', b') \<and> classCount b' = 1 \<and> firstClass b' = 1 \<and>
               predictValue h' b' f = Inr 10"
    by (simp add: predictValue_def)
qed

theorem degenerate_Base_witness:
  "(\<exists>h' b'. train ext0 (problem [] []) args0 ([], Base_init) = Inr (h', b') \<and> classCount b' = 0 \<and>
      firstClass b' = 0 \<and> predictValue h' b' [(1, 1)] = Inr (- 10)) \<and>
   (\<exists>h' b'. train ext0 (problem [1, 1] [[(1, 1)], [(1, 2)]]) args0 ([], Base_init) = Inr (h', b') \<and>
      classCount b' = 1 \<and> firstClass b' = 1 \<and> predictValue h' b' [(1, 1)] = Inr 10)"
  using degenerate_Base[of "problem [] []" ext0 args0 "[]" Base_init "[(1, 1)]"]
    degenerate_Base[of "problem [1, 1] [[(1, 1)], [(1, 2)]]" ext0 args0 "[]" Base_init "[(1, 1)]"]
  by (simp add: problem_def)

text \<open>
  The claim C2 as it was stated has \<open>+10\<close> for the empty dataset too; the Base
  trained on it predicts \<open>-10\<close>.
\<close>

theorem degenerate_Base_empty_counterexample:
  "train ext0 (problem [] []) args0 ([], Base_init)
     = Inr ([], Base_init\<lparr>firstClass := 0, classCount := 0\<rparr>) \<and>
   predictValue [] (Base_init\<lparr>firstClass := 0, classCount := 0\<rparr>) [(1, 1)] = Inr (- 10) \<and>
   predictValue [] (Base_init\<lparr>firstClass := 0, classCount := 0\<rparr>) [(1, 1)] \<noteq> Inr 10"
  by (simp add: train_empty problem_def predictValue_def)

subsection \<open>Changing the representation\<close>

lemma vecTo_same_representation:
  assumes "deref h a = Some v"
    and "(type = dense \<and> isDense v) \<or> (type = map_rep \<and> isMap v) \<or> (type = sparse \<and> isSparse v)"
  shows "vecTo h (Some a) type = Inl (InvalidArgument ''Unknown representation type'', (h, Some a))"
  using assms by (cases v; cases type) (auto simp: vecTo_def)

lemma to_keeps_fields: "to type (h, b) = Inr (h', b') \<Longrightarrow> b' = b"
  by (auto simp: to_def split: sum.splits prod.splits)

text \<open>
  C3. \<open>Base::to\<close> on a Base whose \<open>W\<close> is a dense vector: asked for \<open>dense\<close>, the
  call does not leave the Base as it is but throws \<open>Unknown representation type\<close>;
  asked for \<open>map\<close>, it builds the map vector and deletes the dense one, but \<open>W\<close>
  still holds the address of the deleted vector and no field holds the new one.
\<close>

theorem to_failing_input:
  "to dense ([Some (Vector [0, 1])], Base_init\<lparr>classCount := 2, W := Some 0\<rparr>)
     = Inl (InvalidArgument ''Unknown representation type'',
            ([Some (Vector [0, 1])], Base_init\<lparr>classCount := 2, W := Some 0\<rparr>)) \<and>
   to map_rep ([Some (Vector [0, 1])], Base_init\<lparr>classCount := 2, W := Some 0\<rparr>)
     = Inr ([None, Some (MapVector 2 [(1, 1)])], Base_init\<lparr>classCount := 2, W := Some 0\<rparr>)"
  by (simp add: to_def vecTo_def deref_def Base_init_def new_def delete_def toMap_def entries_def
      upt_rec[of 0] upt_rec[of 1] upt_rec[of 2])

subsection \<open>Online updates\<close>

lemma count_step_W [simp]: "W (count_step l b) = W b" "G (count_step l b) = G b"
  "t_steps (count_step l b) = t_steps b + 1"
  by (simp_all add: count_step_def Let_def)

text \<open>
  C10. In \<open>Base::unsafeUpdate\<close>, and in \<open>Base::update\<close>, which only adds the mutex:
  when \<open>args.tmax\<close> is not \<open>-1\<close> and \<open>t\<close> is beyond it, the call returns with the
  Base and the store of \<open>W\<close> and \<open>G\<close> as they were. Otherwise, with an online
  optimizer, the update rule is applied to \<open>*W\<close> and \<open>*G\<close> with the gradient
  \<open>logisticGrad(label, pred, 0)\<close> when \<open>args.lossType\<close> is logistic and
  \<open>squaredHingeGrad(label, pred, 0)\<close> for every other loss, and the
  propensity-weighted gradient has no part in the result.
\<close>

theorem unsafeUpdate_gradient:
  "(tmax args \<noteq> - 1 \<and> tmax args < t_steps b \<longrightarrow>
      unsafeUpdate X l f args (h, b) = Inr (h, b) \<and> update X l f args (h, b) = Inr (h, b)) \<and>
   (\<not> (tmax args \<noteq> - 1 \<and> tmax args < t_steps b) \<and> optimizerType args \<noteq> liblinear \<and>
    predictValue h (count_step l b) f = Inr pred \<and>
    pointee h (W b) = Inr (Some w) \<and> pointee h (G b) = Inr g \<longrightarrow>
      unsafeUpdate X l f args (h, b) =
        (let grad = (if Args.lossType args = logistic then logisticGrad X l pred 0
                     else squaredHingeGrad X l pred 0);
             rule = (if optimizerType args = sgd then updateSGD X else updateAdaGrad X);
             (w', g') = rule w g f grad (t_steps b + 1) args
         in Inr (store (store h (W b) (Some w')) (G b) g', count_step l b)) \<and>
      update X l f args (h, b) = unsafeUpdate X l f args (h, b)) \<and>
   unsafeUpdate (X\<lparr>pwLogisticGrad := pw\<rparr>) l f args (h, b) = unsafeUpdate X l f args (h, b)"
proof (intro conjI impI)
  assume "tmax args \<noteq> - 1 \<and> tmax args < t_steps b"
  then show "unsafeUpdate X l f args (h, b) = Inr (h, b)" "update X l f args (h, b) = Inr (h, b)"
    by (simp_all add: update_def unsafeUpdate_def)
next
  assume a: "\<not> (tmax args \<noteq> - 1 \<and> tmax args < t_steps b) \<and> optimizerType args \<noteq> liblinear \<and>
    predictValue h (count_step l b) f = Inr pred \<and>
    pointee h (W b) = Inr (Some w) \<and> pointee h (G b) = Inr g"
  then show "unsafeUpdate X l f args (h, b) =
        (let grad = (if Args.lossType args = logistic then logisticGrad X l pred 0
                     else squaredHingeGrad X l pred 0);
             rule = (if optimizerType args = sgd then updateSGD X else updateAdaGrad X);
             (w', g') = rule w g f grad (t_steps b + 1) args
         in Inr (store (store h (W b) (Some w')) (G b) g', count_step l b))"
    by (cases "optimizerType args") (auto simp add: unsafeUpdate_def Let_def split: prod.splits)
  show "update X l f args (h, b) = unsafeUpdate X l f args (h, b)"
    by (simp add: update_def)
next
  show "unsafeUpdate (X\<lparr>pwLogisticGrad := pw\<rparr>) l f args (h, b) = unsafeUpdate X l f args (h, b)"
    by (simp add: unsafeUpdate_def Let_def
        split: sum.split OptimizerType.split option.split prod.split)
qed

theorem unsafeUpdate_gradient_witness:
  "unsafeUpdate ext0 1 [(1, 1)] (args0\<lparr>tmax := 5\<rparr>) ([], Base_init\<lparr>t_steps := 7\<rparr>)
     = Inr ([], Base_init\<lparr>t_steps := 7\<rparr>) \<and>
   unsafeUpdate ext0 1 [(1, 1)] (args0\<lparr>Args.lossType := pwLogistic\<rparr>)
       ([Some (Vector [0, 0])], Base_init\<lparr>classCount := 2, firstClass := 1, W := Some 0\<rparr>)
     = Inr ([Some (Vector [- 2, - 2])],
            Base_init\<lparr>classCount := 2, firstClass := 1, W := Some 0, t_steps := 1,
                       firstClassCount := 1\<rparr>)"
  using unsafeUpdate_gradient[of "args0\<lparr>tmax := 5\<rparr>" "Base_init\<lparr>t_steps := 7\<rparr>" ext0 1 "[(1, 1)]" "[]"]
    unsafeUpdate_gradient[of "args0\<lparr>Args.lossType := pwLogistic\<rparr>"
      "Base_init\<lparr>classCount := 2, firstClass := 1, W := Some 0\<rparr>" ext0 1 "[(1, 1)]"
      "[Some (Vector [0, 0])]" 0 "Vector [0, 0]" None]
  by (simp add: args0_def Base_init_def ext0_def predictValue_def count_step_def pointee_def
      deref_def dot_def store_def upt_rec[of 0] upt_rec[of 1])

subsection \<open>Saving and loading\<close>

lemma lookup0_entries:
  "lookup0 (filter (\<lambda>(i, w). w \<noteq> 0) (map (\<lambda>i. (i, f i)) xs)) i = (if i \<in> set xs then f i else 0)"
  by (induction xs) auto

lemma vsize_conv [simp]:
  "vsize (toDense v) = vsize v" "vsize (toMap v) = vsize v" "vsize (toSparse v) = vsize v"
  by (simp_all add: toDense_def toMap_def toSparse_def)

lemma at_vec_conv:
  assumes "i < vsize v"
  shows "at_vec (toDense v) i = at_vec v i" "at_vec (toMap v) i = at_vec v i"
    "at_vec (toSparse v) i = at_vec v i"
  using assms by (simp_all add: toDense_def toMap_def toSparse_def entries_def lookup0_entries)

lemma same_values_conv:
  "same_values v (toDense v)" "same_values v (toMap v)" "same_values v (toSparse v)"
  by (simp_all add: same_values_def at_vec_conv)

lemma same_values_trans: "same_values u v \<Longrightarrow> same_values v w \<Longrightarrow> same_values u w"
  by (simp add: same_values_def)

lemma same_values_like: "same_values v (like e (toDense v))"
  by (cases e) (auto intro: same_values_trans same_values_conv)

lemma doubles_map: "doubles (length xs) (map DoubleVar xs @ rest) = Some (xs, rest)"
  by (induction xs) auto

lemma vload_ex_vsave_ex: "vload_ex e (vsave_ex v @ rest) = Some (like e (toDense v), rest)"
proof -
  have "doubles (vsize v) (map (\<lambda>i. DoubleVar (at_vec v i)) [0..<vsize v] @ rest)
        = Some (map (at_vec v) [0..<vsize v], rest)"
    using doubles_map[of "map (at_vec v) [0..<vsize v]" rest] by (simp add: comp_def)
  then show ?thesis by (simp add: vsave_ex_def toDense_def)
qed

lemma codec_ok_ext0: "codec_ok ext0"
  unfolding codec_ok_def
proof (intro allI ballI conjI)
  fix v rest e
  show "\<exists>v'. vload ext0 e (vsave ext0 v @ rest) = Some (v', rest) \<and> same_values v v'"
    by (simp add: ext0_def vload_ex_vsave_ex same_values_like)
  show "vskipLoad ext0 e (vsave ext0 v @ rest) = Some rest"
    by (simp add: ext0_def vload_ex_vsave_ex)
qed

lemma load_header:
  "load X loadGrads loadAs (IntVar cc # IntVar fc # LossVar lt # inp) (h0, b0) =
     (if cc > 1
      then load_weights X loadGrads loadAs inp (h0, b0\<lparr>classCount := cc, firstClass := fc, lossType := lt\<rparr>)
      else Inr (inp, (h0, b0\<lparr>classCount := cc, firstClass := fc, lossType := lt\<rparr>)))"
  by (simp add: load_def)

lemma fresh_cases:
  "(if loadSparse \<and> loadAs = map_rep then MapVector 0 []
    else if loadAs = sparse then SparseVector 0 [] else Vector [])
   \<in> {Vector [], MapVector 0 [], SparseVector 0 []}"
  by simp

lemma load_weights_saved:
  assumes ok: "codec_ok X"
    and fresh: "fresh = (if (mapEstimateMem X (vsize w) n0 < denseEstimateMem X (vsize w) n0 \<or> vsize w = 0)
                            \<and> loadAs = map_rep then MapVector 0 []
                         else if loadAs = sparse then SparseVector 0 [] else Vector [])"
  shows "\<exists>w'. vload X fresh (vsave X w @ rest) = Some (w', rest) \<and> same_values w w'"
    and "vskipLoad X fresh (vsave X w @ rest) = Some rest"
proof -
  have "fresh \<in> {Vector [], MapVector 0 [], SparseVector 0 []}"
    unfolding fresh by (rule fresh_cases)
  then show "\<exists>w'. vload X fresh (vsave X w @ rest) = Some (w', rest) \<and> same_values w w'"
    and "vskipLoad X fresh (vsave X w @ rest) = Some rest"
    using ok unfolding codec_ok_def by blast+
qed


lemma two_cells:
  "deref (((h0 @ [Some e]) @ [Some e])[length h0 := Some w]) (length h0) = Some w"
  "deref ((((h0 @ [Some e]) @ [Some e])[length h0 := Some w])[Suc (length h0) := Some g]) (length h0) = Some w"
  "deref ((((h0 @ [Some e]) @ [Some e])[length h0 := Some w])[Suc (length h0) := Some g]) (Suc (length h0)) = Some g"
  "deref (delete (((h0 @ [Some e]) @ [Some e])[length h0 := Some w]) (Suc (length h0))) (length h0) = Some w"
  by (simp_all add: deref_def delete_def nth_append list_update_append nth_list_update)

lemma load_weights_no_grads:
  assumes ok: "codec_ok X"
  shows "\<exists>h' b' w'. load_weights X loadGrads loadAs
            (SizeVar (vsize w) # SizeVar n0 # vsave X w @ BoolVar False # rest) (h0, b1)
          = Inr (rest, (h', b')) \<and>
          classCount b' = classCount b1 \<and> firstClass b' = firstClass b1 \<and> lossType b' = lossType b1 \<and>
          pointee h' (W b') = Inr (Some w') \<and> same_values w w'"
proof -
  define fresh where "fresh = (if (mapEstimateMem X (vsize w) n0 < denseEstimateMem X (vsize w) n0 \<or> vsize w = 0)
                            \<and> loadAs = map_rep then MapVector 0 []
                         else if loadAs = sparse then SparseVector 0 [] else Vector [])"
  obtain w' where w': "vload X fresh (vsave X w @ BoolVar False # rest) = Some (w', BoolVar False # rest)"
    and sv: "same_values w w'"
    using load_weights_saved(1)[OF ok fresh_def, of "BoolVar False # rest"] by blast
  show ?thesis
    using w' sv two_cells(1)[of h0 fresh w']
    by (simp add: load_weights_def Let_def new_def pointee_def fresh_def[symmetric])
qed

lemma load_weights_grads:
  assumes ok: "codec_ok X"
  shows "\<exists>h' b' w'. load_weights X loadGrads loadAs
            (SizeVar (vsize w) # SizeVar n0 # vsave X w @ BoolVar True # vsave X g @ rest) (h0, b1)
          = Inr (rest, (h', b')) \<and>
          classCount b' = classCount b1 \<and> firstClass b' = firstClass b1 \<and> lossType b' = lossType b1 \<and>
          pointee h' (W b') = Inr (Some w') \<and> same_values w w' \<and>
          (loadGrads \<longrightarrow> (\<exists>g'. pointee h' (G b') = Inr (Some g') \<and> same_values g g'))"
proof -
  define fresh where "fresh = (if (mapEstimateMem X (vsize w) n0 < denseEstimateMem X (vsize w) n0 \<or> vsize w = 0)
                            \<and> loadAs = map_rep then MapVector 0 []
                         else if loadAs = sparse then SparseVector 0 [] else Vector [])"
  have fin: "fresh \<in> {Vector [], MapVector 0 [], SparseVector 0 []}"
    unfolding fresh_def by (rule fresh_cases)
  obtain w' where w': "vload X fresh (vsave X w @ BoolVar True # vsave X g @ rest)
                        = Some (w', BoolVar True # vsave X g @ rest)"
    and sv: "same_values w w'"
    using load_weights_saved(1)[OF ok fresh_def, of "BoolVar True # vsave X g @ rest"] by blast
  obtain g' where g': "vload X fresh (vsave X g @ rest) = Some (g', rest)"
    and sg: "same_values g g'"
    using ok fin unfolding codec_ok_def by blast
  have sk: "vskipLoad X fresh (vsave X g @ rest) = Some rest"
    using ok fin unfolding codec_ok_def by blast
  show ?thesis
  proof (cases loadGrads)
    case True
    then show ?thesis
      using w' sv g' sg two_cells(2,3)[of h0 fresh w' g']
      by (simp add: load_weights_def Let_def new_def pointee_def fresh_def[symmetric])
  next
    case False
    then show ?thesis
      using w' sv sk two_cells(4)[of h0 fresh w']
      by (simp add: load_weights_def Let_def new_def pointee_def fresh_def[symmetric])
  qed
qed

text \<open>
  C8. Let the serialisation of a weight vector be one that \<open>load\<close> and \<open>skipLoad\<close>
  read back (\<open>codec_ok\<close>), and let \<open>Base::save\<close> succeed on a Base (with more than
  one class its \<open>W\<close> is a live vector). Then \<open>Base::load\<close>, on the stream that
  \<open>save\<close> wrote, takes exactly what was written and yields a Base with the same
  \<open>classCount\<close>, \<open>firstClass\<close> and \<open>lossType\<close>; with more than one class its \<open>W\<close>
  has the logical values of the saved \<open>W\<close>, and so has its \<open>G\<close> when the gradients
  were saved and their loading is asked for. With at most one class only the three
  scalars are written, and \<open>load\<close> reads them and touches neither the store nor
  \<open>W\<close> and \<open>G\<close>.
\<close>

theorem Base_save_load:
  assumes ok: "codec_ok X" and sv: "save X saveGrads (h, b) = Inr out"
  shows "\<exists>h' b'. load X loadGrads loadAs (out @ rest) (h0, b0) = Inr (rest, (h', b')) \<and>
           classCount b' = classCount b \<and> firstClass b' = firstClass b \<and> lossType b' = lossType b \<and>
           (classCount b > 1 \<longrightarrow>
              (\<exists>w w'. pointee h (W b) = Inr (Some w) \<and> pointee h' (W b') = Inr (Some w') \<and>
                       same_values w w')) \<and>
           (classCount b > 1 \<and> saveGrads \<and> G b \<noteq> None \<and> loadGrads \<longrightarrow>
              (\<exists>g g'. pointee h (G b) = Inr (Some g) \<and> pointee h' (G b') = Inr (Some g') \<and>
                       same_values g g')) \<and>
           (classCount b \<le> 1 \<longrightarrow>
              out = [IntVar (classCount b), IntVar (firstClass b), LossVar (lossType b)] \<and>
              h' = h0 \<and> W b' = W b0 \<and> G b' = G b0)"
proof (cases "classCount b > 1")
  case False
  then have "out = [IntVar (classCount b), IntVar (firstClass b), LossVar (lossType b)]"
    using sv by (simp add: save_def)
  then show ?thesis using False by (simp add: load_header)
next
  case True
  obtain w where w: "pointee h (W b) = Inr (Some w)"
    using sv True by (auto simp: save_def Let_def split: sum.splits option.splits)
  define b1 where "b1 = b0\<lparr>classCount := classCount b, firstClass := firstClass b, lossType := lossType b\<rparr>"
  have b1: "classCount b1 = classCount b" "firstClass b1 = firstClass b" "lossType b1 = lossType b"
    by (simp_all add: b1_def)
  show ?thesis
  proof (cases "saveGrads \<and> G b \<noteq> None")
    case False
    then have out: "out = IntVar (classCount b) # IntVar (firstClass b) # LossVar (lossType b) #
                     SizeVar (vsize w) # SizeVar (nonZero X w) # vsave X w @ [BoolVar False]"
      using sv True w by (auto simp: save_def Let_def)
    obtain h' b' w' where
      "load_weights X loadGrads loadAs
            (SizeVar (vsize w) # SizeVar (nonZero X w) # vsave X w @ BoolVar False # rest) (h0, b1)
          = Inr (rest, (h', b'))"
      "classCount b' = classCount b1" "firstClass b' = firstClass b1" "lossType b' = lossType b1"
      "pointee h' (W b') = Inr (Some w')" "same_values w w'"
      using load_weights_no_grads[OF ok, of loadGrads loadAs w "nonZero X w" rest h0 b1] by blast
    then show ?thesis
      using True False w b1 by (auto simp add: out load_header b1_def[symmetric])
  next
    case grads: True
    then obtain g where g: "pointee h (G b) = Inr (Some g)"
      using sv True w by (auto simp: save_def Let_def split: sum.splits option.splits)
    have out: "out = IntVar (classCount b) # IntVar (firstClass b) # LossVar (lossType b) #
                     SizeVar (vsize w) # SizeVar (nonZero X w) # vsave X w @ BoolVar True # vsave X g"
      using sv True w g grads by (auto simp: save_def Let_def)
    obtain h' b' w' where
      "load_weights X loadGrads loadAs
            (SizeVar (vsize w) # SizeVar (nonZero X w) # vsave X w @ BoolVar True # vsave X g @ rest) (h0, b1)
          = Inr (rest, (h', b'))"
      "classCount b' = classCount b1" "firstClass b' = firstClass b1" "lossType b' = lossType b1"
      "pointee h' (W b') = Inr (Some w')" "same_values w w'"
      "loadGrads \<longrightarrow> (\<exists>g'. pointee h' (G b') = Inr (Some g') \<and> same_values g g')"
      using load_weights_grads[OF ok, of loadGrads loadAs w "nonZero X w" g rest h0 b1] by blast
    then show ?thesis
      using True grads w g b1 by (auto simp add: out load_header b1_def[symmetric])
  qed
qed

theorem Base_save_load_witness:
  "codec_ok ext0 \<and>
   save ext0 True ([Some (Vector [0, 1/2]), Some (Vector [0, 4])],
         Base_init\<lparr>classCount := 2, firstClass := 1, W := Some 0, G := Some 1\<rparr>)
     = Inr [IntVar 2, IntVar 1, LossVar logistic, SizeVar 2, SizeVar 1,
            SizeVar 2, DoubleVar 0, DoubleVar (1/2), BoolVar True,
            SizeVar 2, DoubleVar 0, DoubleVar 4] \<and>
   (\<exists>h' b'. load ext0 True map_rep
       [IntVar 2, IntVar 1, LossVar logistic, SizeVar 2, SizeVar 1,
        SizeVar 2, DoubleVar 0, DoubleVar (1/2), BoolVar True,
        SizeVar 2, DoubleVar 0, DoubleVar 4] ([], Base_init) = Inr ([], (h', b')) \<and>
     classCount b' = 2 \<and> firstClass b' = 1 \<and> lossType b' = logistic \<and>
     (\<exists>w'. pointee h' (W b') = Inr (Some w') \<and> same_values (Vector [0, 1/2]) w') \<and>
     (\<exists>g'. pointee h' (G b') = Inr (Some g') \<and> same_values (Vector [0, 4]) g'))"
proof -
  let ?s = "([Some (Vector [0, 1/2]), Some (Vector [0, 4])],
         Base_init\<lparr>classCount := 2, firstClass := 1, W := Some 0, G := Some 1\<rparr>)"
  let ?out = "[IntVar 2, IntVar 1, LossVar logistic, SizeVar 2, SizeVar 1,
            SizeVar 2, DoubleVar 0, DoubleVar (1/2), BoolVar True,
            SizeVar 2, DoubleVar 0, DoubleVar 4]"
  have sv: "save ext0 True ?s = Inr ?out"
    by (simp add: save_def Base_init_def pointee_def deref_def ext0_def vsave_ex_def entries_def
        upt_rec[of 0] upt_rec[of 1] upt_rec[of 2])
  show ?thesis
    using Base_save_load[OF codec_ok_ext0 sv, of True map_rep "[]" "[]" Base_init] sv codec_ok_ext0
    by (simp add: Base_init_def pointee_def deref_def)
qed

section \<open>Properties of the predict command\<close>

text \<open>
  C4. For a dataset of one row the command does not print one line: the loop runs
  over 5000 rows whatever the dataset holds, and reads row 1 of a matrix with one
  row.
\<close>

theorem main_predict_failing_input:
  "main_predict M show_int show_double ''test.txt'' [[3]] [[(1, 1)]] = Inl OutOfRange"
  by (simp add: main_predict_def predict_rows.simps[of _ _ _ _ _ 0] predict_rows.simps[of _ _ _ _ _ 1])

text \<open>A dataset of 5000 rows or more gets 5000 lines.\<close>

lemma predict_rows_length:
  "0 \<le> r \<Longrightarrow> r \<le> 5000 \<Longrightarrow> 5000 \<le> length features \<Longrightarrow> 5000 \<le> length labels \<Longrightarrow>
   \<exists>res. predict_rows M si sd labels features r out = Inr res \<and>
         length res = length out + nat (5000 - r)"
proof (induction M si sd labels features r out rule: predict_rows.induct)
  case (1 M si sd labels features r out)
  show ?case
  proof (cases "r < 5000")
    case True
    then have inr: "0 \<le> r \<and> nat r < length features \<and> nat r < length labels"
      using 1 by auto
    have "\<exists>res. predict_rows M si sd labels features (r + 1)
                (out @ [print_row si sd (labels ! nat r) (M (features ! nat r))]) = Inr res \<and>
         length res = length (out @ [print_row si sd (labels ! nat r) (M (features ! nat r))])
                      + nat (5000 - (r + 1))"
      using 1 True inr by (intro "1.IH") auto
    then show ?thesis using True inr by (subst predict_rows.simps) (auto simp: nat_diff_distrib)
  next
    case False
    then show ?thesis using 1 by (subst predict_rows.simps) auto
  qed
qed

lemma main_predict_5000:
  "input \<noteq> ''-'' \<Longrightarrow> 5000 \<le> length features \<Longrightarrow> 5000 \<le> length labels \<Longrightarrow>
   \<exists>res. main_predict M si sd input labels features = Inr res \<and> length res = 5000"
  using predict_rows_length[of 0 features labels M si sd "[]"] by (simp add: main_predict_def)

section \<open>Properties of PLTree\<close>

subsection \<open>The complete tree\<close>

lemma push_child_length [simp]: "length (push_child tr p c) = length tr"
  by (simp add: push_child_def)

lemma push_child_index [simp]: "index (push_child tr p c ! i) = index (tr ! i)"
  by (cases "p < length tr") (simp_all add: push_child_def nth_list_update list_update_beyond)

lemma push_child_label [simp]: "label (push_child tr p c ! i) = label (tr ! i)"
  by (cases "p < length tr") (simp_all add: push_child_def nth_list_update list_update_beyond)

lemma push_child_parent [simp]: "parent (push_child tr p c ! i) = parent (tr ! i)"
  by (cases "p < length tr") (simp_all add: push_child_def nth_list_update list_update_beyond)

lemma pa_div:
  assumes "0 < i" "2 \<le> arity"
  shows "nat \<lfloor>real_of_int (int i - 1) / real_of_int arity\<rfloor> = (i - 1) div nat arity"
proof -
  have "\<lfloor>real_of_int (int i - 1) / real_of_int arity\<rfloor> = (int i - 1) div arity"
    by (rule floor_divide_of_int_eq)
  moreover have "int i - 1 = int (i - 1)" using assms by simp
  moreover have "arity = int (nat arity)" using assms by simp
  ultimately have "\<lfloor>real_of_int (int i - 1) / real_of_int arity\<rfloor> = int ((i - 1) div nat arity)"
    by (metis zdiv_int)
  then show ?thesis by simp
qed

lemma build_node_tree:
  assumes "0 \<le> ti" "2 \<le> arity" "length (tree T) = i"
    and "\<forall>j < i. node_ok arity ti rnd lo (tree T ! j) j"
  shows "length (tree (build_node arity ti rnd lo T i)) = Suc i \<and>
         tree_k (build_node arity ti rnd lo T i) = tree_k T \<and>
         tree_t (build_node arity ti rnd lo T i) = tree_t T \<and>
         (\<forall>j < Suc i. node_ok arity ti rnd lo (tree (build_node arity ti rnd lo T i) ! j) j)"
proof -
  let ?T = "build_node arity ti rnd lo T i"
  have len: "length (tree ?T) = Suc i"
    using assms(3) by (simp add: build_node_def Let_def)
  have old: "node_ok arity ti rnd lo (tree ?T ! j) j" if "j < i" for j
    using that assms(3,4) by (simp add: build_node_def Let_def nth_append node_ok_def)
  have new: "node_ok arity ti rnd lo (tree ?T ! i) i"
    using assms(1,2,3) pa_div[of i arity]
    by (simp add: build_node_def Let_def nth_append node_ok_def new_TreeNode_def)
  show ?thesis
    using len old new by (auto simp: less_Suc_eq build_node_def Let_def)
qed

lemma build_fold:
  assumes "0 \<le> ti" "2 \<le> arity" "tree T0 = []"
  shows "length (tree (foldl (build_node arity ti rnd lo) T0 [0..<n])) = n \<and>
         tree_k (foldl (build_node arity ti rnd lo) T0 [0..<n]) = tree_k T0 \<and>
         tree_t (foldl (build_node arity ti rnd lo) T0 [0..<n]) = tree_t T0 \<and>
         (\<forall>j < n. node_ok arity ti rnd lo (tree (foldl (build_node arity ti rnd lo) T0 [0..<n]) ! j) j)"
proof (induction n)
  case 0
  then show ?case using assms by simp
next
  case (Suc n)
  then show ?case
    using build_node_tree[OF assms(1,2), of "foldl (build_node arity ti rnd lo) T0 [0..<n]" n rnd lo]
    by simp
qed

lemma floorlog_as_log:
  assumes "1 \<le> k" "2 < a"
  shows "floorlog (nat a) (nat k) - 1 = nat \<lfloor>log (real_of_int a) (real_of_int k)\<rfloor>"
  using assms by (simp add: floorlog_def)

lemma power_floorlog_le:
  assumes "1 \<le> k" "2 < a"
  shows "real_of_int a ^ (floorlog (nat a) (nat k) - 1) \<le> real_of_int k"
proof -
  have "nat a ^ (floorlog (nat a) (nat k) - 1) \<le> nat k"
    using floorlog_bounds[of "nat k" "nat a"] assms by simp
  then have "real (nat a ^ (floorlog (nat a) (nat k) - 1)) \<le> real (nat k)"
    by (rule iffD2[OF of_nat_le_iff])
  then show ?thesis using assms by simp
qed

lemma complete_t_formula:
  assumes "1 \<le> k" "2 < a"
  shows "complete_t k a = formula_t k a" and "k \<le> complete_t k a"
proof -
  define A where "A = real_of_int a ^ (floorlog (nat a) (nat k) - 1)"
  define C where "C = real_of_int \<lceil>(real_of_int k - A) / (real_of_int a - 1)\<rceil>"
  define D where "D = (real_of_int a * A - 1) / (real_of_int a - 1)"
  have A1: "1 \<le> A" unfolding A_def using assms by (intro one_le_power) simp
  have Ak: "A \<le> real_of_int k" unfolding A_def by (rule power_floorlog_le[OF assms])
  have a1: "0 < real_of_int a - 1" using assms by simp
  have "0 \<le> (real_of_int k - A) / (real_of_int a - 1)" using Ak a1 by simp
  then have C0: "0 \<le> C" unfolding C_def by (simp add: ceiling_le_iff[symmetric] le_ceiling_iff)
  have "A * (real_of_int a - 1) \<le> real_of_int a * A - 1" using A1 by (simp add: algebra_simps)
  then have DA: "A \<le> D" unfolding D_def using a1 by (simp add: pos_le_divide_eq)
  have ge: "real_of_int k \<le> real_of_int k - (A - C) + D" using C0 DA by simp
  then have nonneg: "0 \<le> real_of_int k - (A - C) + D" using assms by linarith
  have ct: "complete_t k a = \<lfloor>real_of_int k - (A - C) + D\<rfloor>"
    using assms nonneg
    by (simp add: complete_t_def complete_t_with_def Let_def trunc_def A_def C_def D_def)
  have AL: "A = real_of_int a ^ nat \<lfloor>log (real_of_int a) (real_of_int k)\<rfloor>"
    unfolding A_def by (simp only: floorlog_as_log[OF assms])
  have "formula_t k a = \<lfloor>real_of_int k - (A - C) + D\<rfloor>"
    unfolding formula_t_def Let_def C_def D_def AL ..
  then show "complete_t k a = formula_t k a"
    using ct by simp
  show "k \<le> complete_t k a"
    unfolding ct using ge by (simp add: le_floor_iff)
qed


lemma complete_t_with_power:
  assumes "2 < a" "k = a ^ Suc m"
  shows "complete_t_with m k a = complete_t_with (Suc m) k a"
proof -
  define A where "A = real_of_int a ^ m"
  have a1: "real_of_int a - 1 \<noteq> 0" using assms by simp
  have k: "real_of_int k = real_of_int a * A" using assms by (simp add: A_def)
  have B: "(real_of_int k - A) / (real_of_int a - 1) = A"
    using a1 by (simp add: k field_simps)
  have "A = real_of_int (a ^ m)" by (simp add: A_def)
  then have C: "real_of_int \<lceil>A\<rceil> = A" by (metis ceiling_of_int)
  have "real_of_int k + (real_of_int a * A - 1) / (real_of_int a - 1)
        = (real_of_int a * real_of_int k - 1) / (real_of_int a - 1)"
    using a1 by (simp add: k field_simps)
  then show ?thesis
    by (simp add: complete_t_with_def Let_def B C A_def[symmetric] k[symmetric])
qed

text \<open>
  The lemma above is about a quotient \<open>log(k) / log(arity)\<close> that a double rounds
  to just below the integer when \<open>k\<close> is a power of the arity: the exponent is one
  less, and the number of nodes is the same.
\<close>

lemma buildCompleteTree_nodes:
  assumes "1 \<le> k" "k \<le> complete_t k a"
  defines "arity \<equiv> (if a > 2 then a else 2)"
  defines "ti \<equiv> complete_t k a - k"
  shows "\<exists>T. buildCompleteTree k a rnd lo = Inr T \<and> tree_k T = k \<and> tree_t T = complete_t k a \<and>
           length (tree T) = nat (complete_t k a) \<and> treeRoot T = 0 \<and>
           (\<forall>j < nat (complete_t k a). node_ok arity ti rnd lo (tree T ! j) j)"
proof -
  define T0 where "T0 = PLTree_init\<lparr>tree_k := k, tree_t := complete_t k a\<rparr>"
  define T1 where "T1 = foldl (build_node arity ti rnd lo) T0 [0..<nat (complete_t k a)]"
  have ti0: "0 \<le> ti" using assms by (simp add: ti_def)
  have ar: "2 \<le> arity" by (simp add: arity_def)
  have T0: "tree T0 = []" "tree_k T0 = k" "tree_t T0 = complete_t k a"
    by (simp_all add: T0_def PLTree_init_def)
  have inv: "length (tree T1) = nat (complete_t k a) \<and> tree_k T1 = tree_k T0 \<and>
         tree_t T1 = tree_t T0 \<and>
         (\<forall>j < nat (complete_t k a). node_ok arity ti rnd lo (tree T1 ! j) j)"
    unfolding T1_def by (rule build_fold[OF ti0 ar T0(1)])
  have pos: "0 < nat (complete_t k a)" using assms by simp
  then have ne: "tree T1 \<noteq> []" using inv by auto
  have n0: "node_ok arity ti rnd lo (tree T1 ! 0) 0" using inv pos by blast
  then have root: "(tree T1 ! 0)\<lparr>parent := None\<rparr> = tree T1 ! 0" by (simp add: node_ok_def)
  have res: "buildCompleteTree k a rnd lo = Inr (T1\<lparr>treeRoot := 0, tree := (tree T1)[0 := tree T1 ! 0]\<rparr>)"
    using assms(1,2) ne root
    by (simp add: buildCompleteTree_def Let_def T1_def T0_def arity_def ti_def)
  show ?thesis using res inv T0 by simp
qed

lemma tree3_leaves:
  "insert_leaf (insert_leaf (\<lambda>l. None) 0 1) 1 2 = treeLeaves tree3"
  by (auto simp: insert_leaf_def tree3_def fun_eq_iff)

text \<open>
  C6, as the code has it. For \<open>k \<ge> 1\<close> labels, \<open>buildCompleteTree\<close> makes a tree of
  \<open>t = 2k - 1\<close> nodes when the arity is at most 2, and of \<open>t = \<lfloor>E + D\<rfloor>\<close> nodes
  (\<open>formula_t\<close>) when it is more. The nodes below \<open>ti = t - k\<close> are internal (their
  label is \<open>-1\<close>), the \<open>k\<close> nodes from \<open>ti\<close> on are the leaves and carry the labels
  \<open>0 .. k - 1\<close>, in this order or in the shuffled order. Node 0 is the root, and
  the parent of a node \<open>i > 0\<close> is \<open>\<lfloor>(i - 1) / a'\<rfloor>\<close>, where \<open>a'\<close> is the arity when
  it is more than 2, and 2 otherwise.
\<close>

theorem buildCompleteTree_shape:
  assumes "1 \<le> k" and "randomizeTree \<longrightarrow> mset labelsOrder = mset (map int [0..<nat k])"
  shows "\<exists>T. buildCompleteTree k a randomizeTree labelsOrder = Inr T \<and>
           tree_k T = k \<and>
           tree_t T = (if a > 2 then formula_t k a else 2 * k - 1) \<and>
           length (tree T) = nat (tree_t T) \<and> k \<le> tree_t T \<and>
           treeRoot T = 0 \<and> parent (tree T ! 0) = None \<and>
           (\<forall>i < length (tree T).
              index (tree T ! i) = int i \<and>
              (0 < i \<longrightarrow> parent (tree T ! i) = Some ((i - 1) div nat (if a > 2 then a else 2)))) \<and>
           map label (take (nat (tree_t T - k)) (tree T)) = replicate (nat (tree_t T - k)) (- 1) \<and>
           map label (drop (nat (tree_t T - k)) (tree T))
             = (if randomizeTree then labelsOrder else map int [0..<nat k]) \<and>
           mset (map label (drop (nat (tree_t T - k)) (tree T))) = mset (map int [0..<nat k])"
proof -
  define arity where "arity = (if a > 2 then a else 2)"
  define t where "t = complete_t k a"
  define ti where "ti = t - k"
  have tf: "t = (if a > 2 then formula_t k a else 2 * k - 1)"
    using complete_t_formula(1)[of k a] assms(1) by (auto simp: t_def complete_t_def)
  have kt: "k \<le> t"
    using complete_t_formula(2)[of k a] assms(1) by (cases "a > 2") (auto simp: t_def complete_t_def)
  obtain T where T: "buildCompleteTree k a randomizeTree labelsOrder = Inr T" "tree_k T = k"
    "tree_t T = t" "length (tree T) = nat t" "treeRoot T = 0"
    and ok: "\<forall>j < nat t. node_ok arity ti randomizeTree labelsOrder (tree T ! j) j"
    using buildCompleteTree_nodes[OF assms(1), of a randomizeTree labelsOrder] kt
    unfolding t_def ti_def arity_def by blast
  have tpos: "0 < nat t" using kt assms(1) by simp
  have lenlo: "randomizeTree \<Longrightarrow> length labelsOrder = nat k"
    using assms(2) by (metis length_map length_upt minus_nat.diff_0 size_mset)
  have nti: "nat ti + nat k = nat t" using kt assms(1) by (simp add: ti_def)
  have internal: "map label (take (nat ti) (tree T)) = replicate (nat ti) (- 1)"
  proof (rule nth_equalityI)
    show "length (map label (take (nat ti) (tree T))) = length (replicate (nat ti) (- 1 :: int))"
      using T(4) nti by simp
  next
    fix i assume "i < length (map label (take (nat ti) (tree T)))"
    then have i: "i < nat ti" "i < nat t" using T(4) nti by auto
    then have "label (tree T ! i) = - 1" using ok kt by (auto simp: node_ok_def ti_def)
    then show "map label (take (nat ti) (tree T)) ! i = replicate (nat ti) (- 1) ! i"
      using i T(4) by simp
  qed
  have leaves: "map label (drop (nat ti) (tree T))
             = (if randomizeTree then labelsOrder else map int [0..<nat k])"
  proof (rule nth_equalityI)
    show "length (map label (drop (nat ti) (tree T)))
          = length (if randomizeTree then labelsOrder else map int [0..<nat k])"
      using T(4) nti lenlo by auto
  next
    fix i assume "i < length (map label (drop (nat ti) (tree T)))"
    then have i: "i < nat k" "nat ti + i < nat t" using T(4) nti by auto
    have ge: "int (nat ti + i) \<ge> ti" by linarith
    have "label (tree T ! (nat ti + i))
          = (if randomizeTree then labelsOrder ! i else int i)"
      using ok i(2) ge kt by (auto simp: node_ok_def ti_def)
    then show "map label (drop (nat ti) (tree T)) ! i
          = (if randomizeTree then labelsOrder else map int [0..<nat k]) ! i"
      using i T(4) by simp
  qed
  have "parent (tree T ! 0) = None" using ok tpos by (auto simp: node_ok_def)
  moreover have "\<forall>i < length (tree T).
              index (tree T ! i) = int i \<and>
              (0 < i \<longrightarrow> parent (tree T ! i) = Some ((i - 1) div nat arity))"
    using ok T(4) by (auto simp: node_ok_def)
  moreover have "mset (map label (drop (nat ti) (tree T))) = mset (map int [0..<nat k])"
    unfolding leaves using assms(2) by simp
  ultimately show ?thesis
    using T tf kt internal leaves unfolding ti_def arity_def by auto
qed

theorem buildCompleteTree_shape_witness:
  "(1::int) \<le> 9 \<and>
   (\<exists>T. buildCompleteTree 9 3 False [] = Inr T \<and> tree_k T = 9 \<and> tree_t T = formula_t 9 3 \<and>
        length (tree T) = nat (tree_t T) \<and> treeRoot T = 0 \<and> parent (tree T ! 0) = None) \<and>
   mset [1, 0] = mset (map int [0..<nat 2]) \<and>
   (\<exists>T. buildCompleteTree 2 2 True [1, 0] = Inr T \<and> tree_t T = 3 \<and>
        map label (drop (nat (tree_t T - 2)) (tree T)) = [1, 0])"
proof -
  have m: "mset [1, 0] = mset (map int [0..<nat 2])"
    by (simp add: eval_nat_numeral)
  show ?thesis
    using buildCompleteTree_shape[of 9 False "[]" 3]
      buildCompleteTree_shape[of 2 True "[1, 0]" 2] m
    by auto
qed

text \<open>
  The claim C6 as it was stated divides by the arity that was passed: for the
  arity 1 and two labels the parent of node 2 would be node 1; it is node 0.
\<close>

theorem buildCompleteTree_parent_counterexample:
  "buildCompleteTree 2 1 False [] = Inr tree3 \<and> parent (tree tree3 ! 2) = Some 0 \<and>
   nat \<lfloor>(real (2 - 1)) / real_of_int 1\<rfloor> = 1"
proof -
  have "buildCompleteTree 2 1 False [] = Inr tree3"
    using tree3_leaves
    by (simp add: buildCompleteTree_def complete_t_def complete_t_with_def Let_def build_node_def PLTree_init_def
        new_TreeNode_def push_child_def tree3_def eval_nat_numeral)
  then show ?thesis by (simp add: tree3_def)
qed

subsection \<open>Saving and loading a tree\<close>

lemma push_child_children:
  "q < length tr \<Longrightarrow>
   children (push_child tr p c ! q) = (if q = p then children (tr ! p) @ [c] else children (tr ! q))"
  by (simp add: push_child_def nth_list_update)

lemma save_nodes_eq: "save_nodes ns out = out @ concat (map (\<lambda>n. [index n, label n]) ns)"
  by (induction ns arbitrary: out) auto

lemma save_parents_eq:
  "\<forall>n \<in> set ns. \<forall>p. parent n = Some p \<longrightarrow> p < length tr \<Longrightarrow>
   save_parents tr ns out = Inr (out @ map (parentN tr) ns)"
  by (induction ns arbitrary: out) (auto simp: parentN_def split: option.splits)

lemma load_nodes_eq:
  "load_nodes (length ns) (concat (map (\<lambda>n. [index n, label n]) ns) @ rest) T =
     Inr (rest, T\<lparr>tree := tree T @ map bare ns,
                  treeLeaves := leaves_of (treeLeaves T) (length (tree T)) ns\<rparr>)"
proof (induction ns arbitrary: T)
  case Nil
  then show ?case by simp
next
  case (Cons n ns)
  show ?case
    by (cases "0 \<le> label n") (simp_all add: Cons.IH Let_def bare_def fun_upd_def)
qed

lemma leaves_of_other:
  "\<forall>n \<in> set ns. label n \<noteq> l \<or> label n < 0 \<Longrightarrow> leaves_of m pos ns l = m l"
  by (induction ns arbitrary: m pos) auto

lemma leaves_of_at:
  assumes "j < length ns" "label (ns ! j) = l" "0 \<le> l"
    and "\<forall>i < length ns. i \<noteq> j \<longrightarrow> label (ns ! i) \<noteq> l"
  shows "leaves_of m pos ns l = Some (pos + j)"
  using assms
proof (induction ns arbitrary: m pos j)
  case Nil
  then show ?case by simp
next
  case (Cons n ns)
  show ?case
  proof (cases j)
    case 0
    have "\<forall>x \<in> set ns. label x \<noteq> l"
    proof
      fix x assume "x \<in> set ns"
      then obtain i where "i < length ns" "ns ! i = x" by (auto simp: in_set_conv_nth)
      then show "label x \<noteq> l" using Cons.prems(4)[rule_format, of "Suc i"] 0 by auto
    qed
    then have "leaves_of (m(l \<mapsto> pos)) (Suc pos) ns l = (m(l \<mapsto> pos)) l"
      by (intro leaves_of_other) auto
    then show ?thesis using 0 Cons.prems by simp
  next
    case (Suc j')
    have 1: "j' < length ns" "label (ns ! j') = l" using Suc Cons.prems by auto
    have 2: "\<forall>i < length ns. i \<noteq> j' \<longrightarrow> label (ns ! i) \<noteq> l"
      using Cons.prems(4) Suc by (metis Suc_less_eq length_Cons nat.inject nth_Cons_Suc)
    have "leaves_of (if 0 \<le> label n then m(label n \<mapsto> pos) else m) (Suc pos) ns l
          = Some (Suc pos + j')"
      by (rule Cons.IH[OF 1 Cons.prems(3) 2])
    then show ?thesis using Suc by simp
  qed
qed

lemma depth_cong:
  assumes "length tr' = length tr" "\<forall>j < length tr. parent (tr' ! j) = parent (tr ! j)"
  shows "depth tr' f i = depth tr f i"
  using assms by (induction f arbitrary: i) (auto split: option.splits)

lemma filter_upt_Suc:
  "filter P [0..<Suc i] = filter P [0..<i] @ (if P i then [i] else [])"
  by simp

lemma load_parents_inv:
  assumes "length trc = length tr"
    and "i + c = length tr"
    and "\<forall>j < length tr. index (tr ! j) = int j"
    and "\<forall>j < length tr. \<forall>p. parent (tr ! j) = Some p \<longrightarrow> p < length tr"
    and "\<forall>j < length tr. index (trc ! j) = index (tr ! j) \<and> label (trc ! j) = label (tr ! j)"
    and "\<forall>j < i. parent (trc ! j) = parent (tr ! j)"
    and "\<forall>j. i \<le> j \<and> j < length tr \<longrightarrow> parent (trc ! j) = None"
    and "\<forall>p < length tr. children (trc ! p) = filter (\<lambda>c. parent (tr ! c) = Some p) [0..<i]"
  shows "\<exists>tr'. load_parents i c (map (parentN tr) (drop i tr) @ rest) trc = Inr (rest, tr') \<and>
           length tr' = length tr \<and>
           (\<forall>j < length tr. index (tr' ! j) = index (tr ! j) \<and> label (tr' ! j) = label (tr ! j) \<and>
              parent (tr' ! j) = parent (tr ! j) \<and>
              children (tr' ! j) = filter (\<lambda>c. parent (tr ! c) = Some j) [0..<length tr])"
  using assms
proof (induction c arbitrary: i trc)
  case 0
  then show ?case by simp
next
  case (Suc c)
  have i: "i < length tr" using Suc.prems(2) by simp
  have dr: "drop i tr = tr ! i # drop (Suc i) tr" using i by (simp add: Cons_nth_drop_Suc)
  show ?case
  proof (cases "parent (tr ! i)")
    case None
    have step: "load_parents i (Suc c) (map (parentN tr) (drop i tr) @ rest) trc
          = load_parents (Suc i) c (map (parentN tr) (drop (Suc i) tr) @ rest) trc"
      using i None Suc.prems(1) by (simp add: dr parentN_def)
    have p1: "\<forall>j < Suc i. parent (trc ! j) = parent (tr ! j)"
      using Suc.prems(6,7) None i by (auto simp: less_Suc_eq)
    have p2: "\<forall>j. Suc i \<le> j \<and> j < length tr \<longrightarrow> parent (trc ! j) = None"
      using Suc.prems(7) by auto
    have p3: "\<forall>p < length tr. children (trc ! p) = filter (\<lambda>c. parent (tr ! c) = Some p) [0..<Suc i]"
      using Suc.prems(8) None by simp
    show ?thesis
      unfolding step
      using Suc.IH[OF Suc.prems(1) _ Suc.prems(3,4,5) p1 p2 p3] Suc.prems(2) by simp
  next
    case (Some p)
    have p: "p < length tr" using Suc.prems(4) i Some by blast
    have pn: "parentN tr (tr ! i) = int p" using Some p Suc.prems(3) by (simp add: parentN_def)
    define tr1 where "tr1 = push_child trc p i"
    define tr2 where "tr2 = tr1[i := (tr1 ! i)\<lparr>parent := Some p\<rparr>]"
    have step: "load_parents i (Suc c) (map (parentN tr) (drop i tr) @ rest) trc
          = load_parents (Suc i) c (map (parentN tr) (drop (Suc i) tr) @ rest) tr2"
      using i p Suc.prems(1) by (simp add: dr pn Let_def tr1_def tr2_def)
    have l2: "length tr2 = length tr" using Suc.prems(1) by (simp add: tr2_def tr1_def)
    have f2: "\<forall>j < length tr. index (tr2 ! j) = index (tr ! j) \<and> label (tr2 ! j) = label (tr ! j)"
      using Suc.prems(1,5) i by (simp add: tr2_def tr1_def nth_list_update)
    have p1: "\<forall>j < Suc i. parent (tr2 ! j) = parent (tr ! j)"
      using Suc.prems(1,6) Some i by (auto simp: tr2_def tr1_def nth_list_update less_Suc_eq)
    have p2: "\<forall>j. Suc i \<le> j \<and> j < length tr \<longrightarrow> parent (tr2 ! j) = None"
      using Suc.prems(1,7) i by (auto simp: tr2_def tr1_def nth_list_update)
    have p3: "\<forall>q < length tr. children (tr2 ! q) = filter (\<lambda>c. parent (tr ! c) = Some q) [0..<Suc i]"
    proof (intro allI impI)
      fix q assume q: "q < length tr"
      have "children (tr2 ! q) = children (tr1 ! q)"
        using q i Suc.prems(1) by (simp add: tr2_def tr1_def nth_list_update)
      also have "\<dots> = (if q = p then children (trc ! p) @ [i] else children (trc ! q))"
        using q Suc.prems(1) by (simp add: tr1_def push_child_children)
      also have "\<dots> = filter (\<lambda>c. parent (tr ! c) = Some q) [0..<Suc i]"
        using Suc.prems(8) q p Some by auto
      finally show "children (tr2 ! q) = filter (\<lambda>c. parent (tr ! c) = Some q) [0..<Suc i]" .
    qed
    show ?thesis
      unfolding step
      using Suc.IH[OF l2 _ Suc.prems(3,4) f2 p1 p2 p3] Suc.prems(2) by simp
  qed
qed

lemma valid_tree3: "valid_tree tree3"
  unfolding valid_tree_def
  by (auto simp: tree3_def less_Suc_eq eval_nat_numeral nth_Cons' split: if_splits)

lemma load_parents_start:
  assumes "\<forall>j < length tr. index (tr ! j) = int j"
    and "\<forall>j < length tr. \<forall>p. parent (tr ! j) = Some p \<longrightarrow> p < length tr"
  shows "\<exists>tr'. load_parents 0 (length tr) (map (parentN tr) tr @ rest) (map bare tr) = Inr (rest, tr') \<and>
           length tr' = length tr \<and>
           (\<forall>j < length tr. index (tr' ! j) = index (tr ! j) \<and> label (tr' ! j) = label (tr ! j) \<and>
              parent (tr' ! j) = parent (tr ! j) \<and>
              children (tr' ! j) = filter (\<lambda>c. parent (tr ! c) = Some j) [0..<length tr])"
proof -
  have 1: "length (map bare tr) = length tr" by simp
  have 2: "0 + length tr = length tr" by simp
  have 5: "\<forall>j < length tr. index (map bare tr ! j) = index (tr ! j) \<and>
             label (map bare tr ! j) = label (tr ! j)"
    by (simp add: bare_def)
  have 6: "\<forall>j < 0. parent (map bare tr ! j) = parent (tr ! j)" by simp
  have 7: "\<forall>j. 0 \<le> j \<and> j < length tr \<longrightarrow> parent (map bare tr ! j) = None"
    by (simp add: bare_def new_TreeNode_def)
  have 8: "\<forall>p < length tr. children (map bare tr ! p) = filter (\<lambda>c. parent (tr ! c) = Some p) [0..<0]"
    by (simp add: bare_def new_TreeNode_def)
  show ?thesis
    using load_parents_inv[OF 1 2 assms 5 6 7 8, of rest] by simp
qed

lemma leaves_of_valid:
  assumes "\<forall>i < length tr. \<forall>j < length tr.
             label (tr ! i) \<ge> 0 \<and> label (tr ! i) = label (tr ! j) \<longrightarrow> i = j"
  shows "(leaves_of (\<lambda>l. None) 0 tr l = Some i) = (i < length tr \<and> label (tr ! i) = l \<and> 0 \<le> l)"
proof (cases "\<exists>j < length tr. label (tr ! j) = l \<and> 0 \<le> l")
  case True
  then obtain j where j: "j < length tr" "label (tr ! j) = l" "0 \<le> l" by blast
  have uniq: "\<forall>i < length tr. i \<noteq> j \<longrightarrow> label (tr ! i) \<noteq> l"
  proof (intro allI impI notI)
    fix i assume "i < length tr" "i \<noteq> j" "label (tr ! i) = l"
    then have "j = i" using assms[rule_format, of j i] j by simp
    then show False using \<open>i \<noteq> j\<close> by simp
  qed
  have "leaves_of (\<lambda>l. None) 0 tr l = Some (0 + j)"
    by (rule leaves_of_at[OF j uniq])
  then show ?thesis using j uniq by auto
next
  case False
  have "\<forall>n \<in> set tr. label n \<noteq> l \<or> label n < 0"
  proof
    fix n assume "n \<in> set tr"
    then obtain j where j: "j < length tr" "tr ! j = n" by (auto simp: in_set_conv_nth)
    then have "\<not> (label (tr ! j) = l \<and> 0 \<le> l)" using False by blast
    then show "label n \<noteq> l \<or> label n < 0" using j(2) by auto
  qed
  then have "leaves_of (\<lambda>l. None) 0 tr l = None" by (simp add: leaves_of_other)
  then show ?thesis using False by auto
qed

lemma PLTree_save_valid:
  assumes "treeRoot T < length (tree T)"
    and "\<forall>j < length (tree T). \<forall>p. parent (tree T ! j) = Some p \<longrightarrow> p < length (tree T)"
  shows "PLTree_save T = Inr (T\<lparr>tree_t := int (length (tree T))\<rparr>,
           [tree_k T, int (length (tree T))]
           @ concat (map (\<lambda>n. [index n, label n]) (tree T))
           @ [index (tree T ! treeRoot T)]
           @ map (parentN (tree T)) (tree T))"
proof -
  have par': "\<forall>n \<in> set (tree T). \<forall>p. parent n = Some p \<longrightarrow> p < length (tree T)"
    using assms(2) by (auto simp: in_set_conv_nth)
  show ?thesis
    using assms(1) by (simp add: PLTree_save_def Let_def save_nodes_eq save_parents_eq[OF par'])
qed

lemma PLTree_load_saved:
  assumes root: "treeRoot T < length (tree T)"
    and idx: "\<forall>j < length (tree T). index (tree T ! j) = int j"
    and par: "\<forall>j < length (tree T). \<forall>p. parent (tree T ! j) = Some p \<longrightarrow> p < length (tree T)"
  shows "\<exists>tr'. PLTree_load
            (([tree_k T, int (length (tree T))]
              @ concat (map (\<lambda>n. [index n, label n]) (tree T))
              @ [index (tree T ! treeRoot T)]
              @ map (parentN (tree T)) (tree T)) @ rest) PLTree_init
          = Inr (rest, \<lparr>tree_k = tree_k T, tree_t = int (length (tree T)), tree = tr',
                        treeRoot = treeRoot T, treeLeaves = leaves_of (\<lambda>l. None) 0 (tree T)\<rparr>) \<and>
          length tr' = length (tree T) \<and>
          (\<forall>j < length (tree T). index (tr' ! j) = index (tree T ! j) \<and>
              label (tr' ! j) = label (tree T ! j) \<and>
              parent (tr' ! j) = parent (tree T ! j) \<and>
              children (tr' ! j) = filter (\<lambda>c. parent (tree T ! c) = Some j) [0..<length (tree T)])"
proof -
  let ?tr = "tree T"
  let ?n = "length ?tr"
  let ?tail = "index (?tr ! treeRoot T) # map (parentN ?tr) ?tr @ rest"
  obtain tr' where lp: "load_parents 0 ?n (map (parentN ?tr) ?tr @ rest) (map bare ?tr) = Inr (rest, tr')"
    and len': "length tr' = ?n"
    and flds: "\<forall>j < ?n. index (tr' ! j) = index (?tr ! j) \<and> label (tr' ! j) = label (?tr ! j) \<and>
              parent (tr' ! j) = parent (?tr ! j) \<and>
              children (tr' ! j) = filter (\<lambda>c. parent (?tr ! c) = Some j) [0..<?n]"
    using load_parents_start[OF idx par, of rest] by blast
  have ln: "load_nodes ?n (concat (map (\<lambda>n. [index n, label n]) ?tr) @ tail)
               (PLTree_init\<lparr>tree_k := tree_k T, tree_t := int ?n\<rparr>)
            = Inr (tail, \<lparr>tree_k = tree_k T, tree_t = int ?n, tree = map bare ?tr,
                        treeRoot = 0, treeLeaves = leaves_of (\<lambda>l. None) 0 ?tr\<rparr>)" for tail
    by (simp only: load_nodes_eq) (simp add: PLTree_init_def)
  have ri: "index (?tr ! treeRoot T) = int (treeRoot T)" using idx root by simp
  have "PLTree_load ((tree_k T # int ?n # concat (map (\<lambda>n. [index n, label n]) ?tr) @ ?tail)) PLTree_init
        = Inr (rest, \<lparr>tree_k = tree_k T, tree_t = int ?n, tree = tr',
                        treeRoot = treeRoot T, treeLeaves = leaves_of (\<lambda>l. None) 0 ?tr\<rparr>)"
    unfolding PLTree_load_def
    by (simp add: ln lp ri root del: load_nodes.simps load_parents.simps)
  then show ?thesis using len' flds by simp
qed

lemma valid_treeD:
  assumes "valid_tree T"
  shows "treeRoot T < length (tree T)"
    and "\<forall>i < length (tree T). index (tree T ! i) = int i"
    and "\<forall>i < length (tree T). (parent (tree T ! i) = None) = (i = treeRoot T)"
    and "\<forall>i < length (tree T). \<forall>p. parent (tree T ! i) = Some p \<longrightarrow>
         p < length (tree T) \<and> i \<in> set (children (tree T ! p))"
    and "\<forall>p < length (tree T). \<forall>c \<in> set (children (tree T ! p)).
         c < length (tree T) \<and> parent (tree T ! c) = Some p"
    and "\<forall>i < length (tree T). depth (tree T) (length (tree T)) i \<noteq> None"
    and "\<forall>i < length (tree T). \<forall>j < length (tree T).
         label (tree T ! i) \<ge> 0 \<and> label (tree T ! i) = label (tree T ! j) \<longrightarrow> i = j"
    and "\<forall>i < length (tree T). label (tree T ! i) \<ge> 0 \<longrightarrow>
         treeLeaves T (label (tree T ! i)) = Some i"
    and "\<forall>l i. treeLeaves T l = Some i \<longrightarrow> i < length (tree T) \<and> label (tree T ! i) = l \<and> l \<ge> 0"
proof -
  note v = assms[unfolded valid_tree_def]
  show "treeRoot T < length (tree T)"
    using v by (elim conjE)
  show "\<forall>i < length (tree T). index (tree T ! i) = int i"
    using v by (elim conjE)
  show "\<forall>i < length (tree T). (parent (tree T ! i) = None) = (i = treeRoot T)"
    using v by (elim conjE)
  show "\<forall>i < length (tree T). \<forall>p. parent (tree T ! i) = Some p \<longrightarrow>
             p < length (tree T) \<and> i \<in> set (children (tree T ! p))"
    using v by (elim conjE)
  show "\<forall>p < length (tree T). \<forall>c \<in> set (children (tree T ! p)).
             c < length (tree T) \<and> parent (tree T ! c) = Some p"
    using v by (elim conjE)
  show "\<forall>i < length (tree T). depth (tree T) (length (tree T)) i \<noteq> None"
    using v by (elim conjE)
  show "\<forall>i < length (tree T). \<forall>j < length (tree T).
             label (tree T ! i) \<ge> 0 \<and> label (tree T ! i) = label (tree T ! j) \<longrightarrow> i = j"
    using v by (elim conjE)
  show "\<forall>i < length (tree T). label (tree T ! i) \<ge> 0 \<longrightarrow>
             treeLeaves T (label (tree T ! i)) = Some i"
    using v by (elim conjE)
  show "\<forall>l i. treeLeaves T l = Some i \<longrightarrow> i < length (tree T) \<and> label (tree T ! i) = l \<and> l \<ge> 0"
    using v by (elim conjE)
qed

lemma treeLeaves_valid:
  assumes "valid_tree T"
  shows "(treeLeaves T l = Some i) = (i < length (tree T) \<and> label (tree T ! i) = l \<and> 0 \<le> l)"
proof
  assume "treeLeaves T l = Some i"
  then show "i < length (tree T) \<and> label (tree T ! i) = l \<and> 0 \<le> l"
    using valid_treeD(9)[OF assms] by blast
next
  assume a: "i < length (tree T) \<and> label (tree T ! i) = l \<and> 0 \<le> l"
  then show "treeLeaves T l = Some i" using valid_treeD(8)[OF assms] by blast
qed

text \<open>
  C7. For a valid tree, \<open>PLTree::save\<close> sets \<open>t\<close> to the number of nodes and
  writes \<open>k\<close>, \<open>t\<close>, the pair \<open>(index, label)\<close> of each node, the index of the
  root, and for each node the index of its parent, \<open>-1\<close> for the root. \<open>PLTree::load\<close>
  on a fresh object reads exactly this stream and gives a tree with the same \<open>k\<close>,
  the same \<open>t\<close>, the same root, and nodes with the same indices, labels and
  parents; the children of a node are the nodes that have it as parent,
  \<open>treeLeaves\<close> maps each label to its leaf (it is the map of the saved tree), and
  the loaded tree is valid again.
\<close>

theorem PLTree_save_load:
  assumes "valid_tree T"
  shows "\<exists>T1 out T'.
           PLTree_save T = Inr (T1, out) \<and> T1 = T\<lparr>tree_t := int (length (tree T))\<rparr> \<and>
           out = [tree_k T, int (length (tree T))]
                 @ concat (map (\<lambda>n. [index n, label n]) (tree T))
                 @ [index (tree T ! treeRoot T)]
                 @ map (parentN (tree T)) (tree T) \<and>
           parentN (tree T) (tree T ! treeRoot T) = - 1 \<and>
           PLTree_load (out @ rest) PLTree_init = Inr (rest, T') \<and>
           tree_k T' = tree_k T \<and> tree_t T' = int (length (tree T)) \<and>
           treeRoot T' = treeRoot T \<and> length (tree T') = length (tree T) \<and>
           (\<forall>i < length (tree T).
              index (tree T' ! i) = index (tree T ! i) \<and> label (tree T' ! i) = label (tree T ! i) \<and>
              parent (tree T' ! i) = parent (tree T ! i) \<and>
              children (tree T' ! i)
                = filter (\<lambda>c. parent (tree T' ! c) = Some i) [0..<length (tree T')]) \<and>
           (\<forall>l i. (treeLeaves T' l = Some i)
                  = (i < length (tree T') \<and> label (tree T' ! i) = l \<and> 0 \<le> l)) \<and>
           treeLeaves T' = treeLeaves T \<and> valid_tree T'"
proof -
  let ?tr = "tree T"
  let ?n = "length ?tr"
  have root: "treeRoot T < ?n" by (rule valid_treeD(1)[OF assms])
  have idx: "\<forall>j < ?n. index (?tr ! j) = int j" by (rule valid_treeD(2)[OF assms])
  have par: "\<forall>j < ?n. \<forall>p. parent (?tr ! j) = Some p \<longrightarrow> p < ?n"
    using valid_treeD(4)[OF assms] by blast
  have oneroot: "\<forall>i < ?n. (parent (?tr ! i) = None) = (i = treeRoot T)"
    by (rule valid_treeD(3)[OF assms])
  have dist: "\<forall>i < ?n. \<forall>j < ?n. label (?tr ! i) \<ge> 0 \<and> label (?tr ! i) = label (?tr ! j) \<longrightarrow> i = j"
    by (rule valid_treeD(7)[OF assms])
  have dpT: "\<forall>i < ?n. depth ?tr ?n i \<noteq> None"
    by (rule valid_treeD(6)[OF assms])
  define out where "out = [tree_k T, int ?n] @ concat (map (\<lambda>n. [index n, label n]) ?tr)
                 @ [index (?tr ! treeRoot T)] @ map (parentN ?tr) ?tr"
  have sv: "PLTree_save T = Inr (T\<lparr>tree_t := int ?n\<rparr>, out)"
    unfolding out_def by (rule PLTree_save_valid[OF root par])
  obtain tr' where ld0: "PLTree_load (out @ rest) PLTree_init
          = Inr (rest, \<lparr>tree_k = tree_k T, tree_t = int ?n, tree = tr',
                        treeRoot = treeRoot T, treeLeaves = leaves_of (\<lambda>l. None) 0 ?tr\<rparr>)"
    and len': "length tr' = ?n"
    and flds: "\<forall>j < ?n. index (tr' ! j) = index (?tr ! j) \<and> label (tr' ! j) = label (?tr ! j) \<and>
              parent (tr' ! j) = parent (?tr ! j) \<and>
              children (tr' ! j) = filter (\<lambda>c. parent (?tr ! c) = Some j) [0..<?n]"
    using PLTree_load_saved[OF root idx par, of rest] unfolding out_def by blast
  define T' where "T' = \<lparr>tree_k = tree_k T, tree_t = int ?n, tree = tr',
                        treeRoot = treeRoot T, treeLeaves = leaves_of (\<lambda>l. None) 0 ?tr\<rparr>"
  have ld: "PLTree_load (out @ rest) PLTree_init = Inr (rest, T')"
    unfolding T'_def by (rule ld0)
  have T'f: "tree_k T' = tree_k T" "tree_t T' = int ?n" "treeRoot T' = treeRoot T" "tree T' = tr'"
    "treeLeaves T' = leaves_of (\<lambda>l. None) 0 ?tr"
    by (simp_all add: T'_def)
  have same_par: "\<forall>c < ?n. parent (tr' ! c) = parent (?tr ! c)" using flds by blast
  have ch: "\<forall>i < ?n. children (tr' ! i) = filter (\<lambda>c. parent (tr' ! c) = Some i) [0..<?n]"
  proof (intro allI impI)
    fix i assume "i < ?n"
    then have "children (tr' ! i) = filter (\<lambda>c. parent (?tr ! c) = Some i) [0..<?n]"
      using flds by blast
    also have "\<dots> = filter (\<lambda>c. parent (tr' ! c) = Some i) [0..<?n]"
      by (rule filter_cong) (auto simp: same_par)
    finally show "children (tr' ! i) = filter (\<lambda>c. parent (tr' ! c) = Some i) [0..<?n]" .
  qed
  have lv: "(leaves_of (\<lambda>l. None) 0 ?tr l = Some i) = (i < ?n \<and> label (?tr ! i) = l \<and> 0 \<le> l)" for l i
    by (rule leaves_of_valid[OF dist])
  have lvT: "(treeLeaves T l = Some i) = (i < ?n \<and> label (?tr ! i) = l \<and> 0 \<le> l)" for l i
    by (rule treeLeaves_valid[OF assms])
  have leq: "treeLeaves T' = treeLeaves T"
  proof
    fix l
    have e: "(treeLeaves T' l = Some i) = (treeLeaves T l = Some i)" for i
    proof -
      have "(treeLeaves T' l = Some i) = (i < ?n \<and> label (?tr ! i) = l \<and> 0 \<le> l)"
        unfolding T'f(5) by (rule lv)
      also have "\<dots> = (treeLeaves T l = Some i)" by (rule lvT[symmetric])
      finally show ?thesis .
    qed
    show "treeLeaves T' l = treeLeaves T l"
    proof (cases "treeLeaves T l")
      case None
      have "treeLeaves T' l \<noteq> Some i" for i
      proof
        assume "treeLeaves T' l = Some i"
        then have "treeLeaves T l = Some i" by (rule iffD1[OF e])
        then show False using None by simp
      qed
      then have "treeLeaves T' l = None" by (cases "treeLeaves T' l") blast+
      then show ?thesis using None by simp
    next
      case (Some i)
      then have "treeLeaves T' l = Some i" by (rule iffD2[OF e])
      then show ?thesis using Some by simp
    qed
  qed
  have dp: "depth tr' f i = depth ?tr f i" for f i
    by (rule depth_cong[OF len' same_par])
  have lab: "\<forall>i < ?n. label (tr' ! i) = label (?tr ! i)" using flds by blast
  have v: "valid_tree T'"
    unfolding valid_tree_def T'f(3,4) leq len'
  proof (intro conjI)
    show "treeRoot T < ?n" by (rule root)
    show "\<forall>i<?n. index (tr' ! i) = int i" using flds idx by simp
    show "\<forall>i<?n. (parent (tr' ! i) = None) = (i = treeRoot T)"
      using same_par oneroot by simp
    show "\<forall>i<?n. \<forall>p. parent (tr' ! i) = Some p \<longrightarrow> p < ?n \<and> i \<in> set (children (tr' ! p))"
    proof (intro allI impI)
      fix i p assume i: "i < ?n" and p: "parent (tr' ! i) = Some p"
      then have "parent (?tr ! i) = Some p" using same_par by simp
      then have pn: "p < ?n" using par i by blast
      then have "children (tr' ! p) = filter (\<lambda>c. parent (tr' ! c) = Some p) [0..<?n]"
        using ch by blast
      then show "p < ?n \<and> i \<in> set (children (tr' ! p))" using pn i p by simp
    qed
    show "\<forall>p<?n. \<forall>c\<in>set (children (tr' ! p)). c < ?n \<and> parent (tr' ! c) = Some p"
    proof (intro allI impI ballI)
      fix p c assume "p < ?n" "c \<in> set (children (tr' ! p))"
      then have "c \<in> set (filter (\<lambda>c. parent (tr' ! c) = Some p) [0..<?n])" using ch by simp
      then show "c < ?n \<and> parent (tr' ! c) = Some p" by simp
    qed
    show "\<forall>i<?n. depth tr' ?n i \<noteq> None" unfolding dp by (rule dpT)
    show "\<forall>i<?n. \<forall>j<?n. 0 \<le> label (tr' ! i) \<and> label (tr' ! i) = label (tr' ! j) \<longrightarrow> i = j"
    proof (intro allI impI)
      fix i j assume i: "i < ?n" and j: "j < ?n"
        and e: "0 \<le> label (tr' ! i) \<and> label (tr' ! i) = label (tr' ! j)"
      have "label (tr' ! i) = label (?tr ! i)" "label (tr' ! j) = label (?tr ! j)"
        using lab i j by blast+
      then have "0 \<le> label (?tr ! i) \<and> label (?tr ! i) = label (?tr ! j)" using e by simp
      then show "i = j" using dist i j by blast
    qed
    show "\<forall>i<?n. 0 \<le> label (tr' ! i) \<longrightarrow> treeLeaves T (label (tr' ! i)) = Some i"
      using lab lvT by simp
    show "\<forall>l i. treeLeaves T l = Some i \<longrightarrow> i < ?n \<and> label (tr' ! i) = l \<and> 0 \<le> l"
      using lab lvT by simp
  qed
  have "parent (?tr ! treeRoot T) = None" using oneroot root by blast
  then have pr: "parentN ?tr (?tr ! treeRoot T) = - 1" by (simp add: parentN_def)
  have lv': "\<forall>l i. (treeLeaves T' l = Some i) = (i < length (tree T') \<and> label (tree T' ! i) = l \<and> 0 \<le> l)"
    unfolding T'f len' lv using lab by auto
  have flds': "\<forall>i < length (tree T).
              index (tree T' ! i) = index (tree T ! i) \<and> label (tree T' ! i) = label (tree T ! i) \<and>
              parent (tree T' ! i) = parent (tree T ! i) \<and>
              children (tree T' ! i)
                = filter (\<lambda>c. parent (tree T' ! c) = Some i) [0..<length (tree T')]"
    unfolding T'f len' using flds ch by simp
  have len'': "length (tree T') = length (tree T)" unfolding T'f by (rule len')
  show ?thesis
    apply (rule exI[of _ "T\<lparr>tree_t := int ?n\<rparr>"])
    apply (rule exI[of _ out])
    apply (rule exI[of _ T'])
    apply (intro conjI)
                apply (rule sv)
               apply (rule refl)
              apply (rule out_def)
             apply (rule pr)
            apply (rule ld)
           apply (rule T'f(1))
          apply (rule T'f(2))
         apply (rule T'f(3))
        apply (rule len'')
       apply (rule flds')
      apply (rule lv')
     apply (rule leq)
    apply (rule v)
    done
qed

theorem PLTree_save_load_witness:
  "valid_tree tree3 \<and>
   PLTree_save tree3 = Inr (tree3, [2, 3, 0, - 1, 1, 0, 2, 1, 0, - 1, 0, 0]) \<and>
   (\<exists>T'. PLTree_load [2, 3, 0, - 1, 1, 0, 2, 1, 0, - 1, 0, 0] PLTree_init = Inr ([], T') \<and>
         tree_k T' = 2 \<and> tree_t T' = 3 \<and> treeRoot T' = 0 \<and> length (tree T') = 3 \<and>
         treeLeaves T' = treeLeaves tree3 \<and> valid_tree T')"
proof -
  obtain T1 out T' where
    1: "PLTree_save tree3 = Inr (T1, out)" "T1 = tree3\<lparr>tree_t := int (length (tree tree3))\<rparr>"
    and 2: "out = [tree_k tree3, int (length (tree tree3))]
                 @ concat (map (\<lambda>n. [index n, label n]) (tree tree3))
                 @ [index (tree tree3 ! treeRoot tree3)]
                 @ map (parentN (tree tree3)) (tree tree3)"
    and 3: "PLTree_load (out @ []) PLTree_init = Inr ([], T')"
      "tree_k T' = tree_k tree3" "tree_t T' = int (length (tree tree3))"
      "treeRoot T' = treeRoot tree3" "length (tree T') = length (tree tree3)"
      "treeLeaves T' = treeLeaves tree3" "valid_tree T'"
    using PLTree_save_load[OF valid_tree3, of "[]"] by blast
  have out: "out = [2, 3, 0, - 1, 1, 0, 2, 1, 0, - 1, 0, 0]"
    unfolding 2 by (simp add: tree3_def parentN_def)
  have T1: "T1 = tree3" unfolding 1(2) by (simp add: tree3_def)
  show ?thesis
    using valid_tree3 1(1) 3 unfolding out T1 by (auto simp: tree3_def)
qed

subsection \<open>Assigning a row to the nodes\<close>

text \<open>
  C5. On the complete tree of two labels (three nodes) and a dataset of one row with
  the label 0, the positive nodes are the leaf of 0 and the root and the negative
  node is the other leaf, as the claim says. But the row does not reach them: the
  two vectors of buckets have \<open>rows = 1\<close> entries and are indexed by the index of
  the node, so the push for node 1 is outside them.
\<close>

theorem gather_examples_failing_input:
  "assign_nodes tree3 [0] = Some (Inr ([0, 1], [2])) \<and>
   gather_examples tree3 [[0]] [[(1, 1)]] = Some (Inl OutOfRange)"
proof -
  have 1: "assign_nodes tree3 [0] = Some (Inr ([0, 1], [2]))"
    by (simp add: assign_nodes_def tree3_def walk_up.simps negative_nodes.simps visit_child_def)
  show ?thesis
    unfolding gather_examples_def by (simp add: 1 assign_row_def cols_def) (simp add: tree3_def)
qed

subsection \<open>predict\<close>


























lemma predict_tree3:
  "predict tree3 [] [1, 3/10, 6/10] 2 = Some (Inr [(2, 6/10), (1, 3/10)])"
  by (simp add: predict_def in_bases_def base_predict_def tree3_def predict_loop.simps
      push_children_def)





text \<open>
  What \<open>Base::predictProbability\<close> returns is a probability.
\<close>

lemma predictProbability_range:
  assumes "predictProbability h b f = Inr p"
  shows "0 \<le> p \<and> p \<le> 1"
proof -
  obtain val where val: "predictValue h b f = Inr val"
    and p: "p = (if lossType b = squaredHinge then exp (- ((max 0 (1 - val)) ^ 2))
                 else 1 / (1 + exp (- val)))"
    using assms by (auto simp: predictProbability_def split: sum.splits)
  show ?thesis
  proof (cases "lossType b = squaredHinge")
    case True
    have "- ((max 0 (1 - val)) ^ 2) \<le> 0" by simp
    then have "exp (- ((max 0 (1 - val)) ^ 2)) \<le> 1" by (simp only: exp_le_one_iff)
    then show ?thesis using True p by simp
  next
    case False
    have e: "0 < exp (- val)" by simp
    have d: "0 < 1 + exp (- val)" by (rule add_pos_pos[OF zero_less_one e])
    have "1 / (1 + exp (- val)) \<le> 1"
      by (subst divide_le_eq_1_pos[OF d]) (use e in simp)
    moreover have "0 \<le> 1 / (1 + exp (- val))" using d by simp
    ultimately have "1 / (1 + exp (- val)) \<le> 1" "0 \<le> 1 / (1 + exp (- val))" by blast+
    then show ?thesis using False p by simp
  qed
qed




end
